theory Spec2Isabelle
  imports Main "HOL-Library.AList"
begin

section \<open>GraphData: a feature-bearing graph container (graph4nlp/pytorch/data/data.py)\<close>

text \<open>
  A shallow embedding of the class \<^verbatim>\<open>GraphData\<close> and of the module functions
  \<^verbatim>\<open>to_batch\<close> and \<^verbatim>\<open>from_batch\<close>. A method of the class becomes a function from
  the object's state to an \<open>outcome\<close>: the state after the call, and the exception when one
  was raised (Python keeps every mutation made before a \<^verbatim>\<open>raise\<close>). Python dictionaries
  are association lists with distinct keys, in insertion order; \<open>map_of\<close> reads a key and
  \<open>AList.update\<close> is the assignment \<^verbatim>\<open>d[k] = v\<close> (an existing key keeps its place, a new
  key goes last).
\<close>

subsection \<open>Exceptions and outcomes\<close>

datatype error =
  ValueError | AssertionError | TypeError | IndexError | KeyError | RuntimeError
  | SizeMismatchException | EdgeNotFoundException

datatype 's outcome = Done 's | Raise error 's

fun commit :: "'s outcome \<Rightarrow> error + 's" where
  "commit (Done s) = Inr s"
| "commit (Raise e s) = Inl e"

subsection \<open>Tensors (torch)\<close>

text \<open>
  A tensor of shape \<open>(n, d1, ..., dk)\<close> is its trailing shape \<open>[d1, ..., dk]\<close> and its \<open>n\<close>
  rows along dimension 0, each row flattened. All tensors of a graph are over one element
  type \<open>'a\<close>; the code does no arithmetic on the elements, only zero filling, concatenation
  and slicing along dimension 0.
\<close>

datatype 'a tensor = Tensor (trailing: "nat list") (rows: "'a list list")

text \<open>\<^verbatim>\<open>value.shape[0]\<close>\<close>

definition shape0 :: "'a tensor \<Rightarrow> nat" where
  "shape0 t = length (rows t)"

text \<open>
  \<^verbatim>\<open>torch.cat(v, dim=0)\<close>: an empty list is refused; tensors of shape \<open>(0,)\<close> are skipped
  (torch's legacy rule); the others must agree on the trailing shape.
\<close>

definition torch_cat :: "'a tensor list \<Rightarrow> error + 'a tensor" where
  "torch_cat ts =
     (if ts = [] then Inl RuntimeError
      else (case filter (\<lambda>t. \<not> (trailing t = [] \<and> rows t = [])) ts of
              [] \<Rightarrow> Inr (Tensor [] [])
            | t # us \<Rightarrow>
                if list_all (\<lambda>u. trailing u = trailing t) us
                then Inr (Tensor (trailing t) (concat (map rows (t # us))))
                else Inl RuntimeError))"

text \<open>\<^verbatim>\<open>v[a:b]\<close> for non-negative \<open>a \<le> b\<close>: Python clamps a slice to the rows there are.\<close>

definition tensor_slice :: "'a tensor \<Rightarrow> nat \<Rightarrow> nat \<Rightarrow> 'a tensor" where
  "tensor_slice v a b = Tensor (trailing v) (take (b - a) (drop a (rows v)))"

subsection \<open>Selectors and the helpers of utils.py\<close>

text \<open>
  A node or edge selector is an int, a slice or (for edges) a list of ints. An endpoint
  argument of \<^verbatim>\<open>add_edges\<close> and \<^verbatim>\<open>edge_ids\<close> is an int or a list.
\<close>

datatype selector = Idx int | Slice "int option" "int option" "int option" | IdxList "int list"

datatype int_or_list = I int | L "int list"

fun is_slice :: "selector \<Rightarrow> bool" where
  "is_slice (Slice a b c) = True"
| "is_slice (Idx i) = False"
| "is_slice (IdxList xs) = False"

text \<open>\<^verbatim>\<open>list(range(start, stop, step))\<close>; a zero step is a ValueError.\<close>

definition py_range :: "int \<Rightarrow> int \<Rightarrow> int \<Rightarrow> error + int list" where
  "py_range start stop step =
     (if step = 0 then Inl ValueError
      else if 0 < step
      then Inr (map (\<lambda>i. start + int i * step) [0..<nat ((stop - start + step - 1) div step)])
      else Inr (map (\<lambda>i. start + int i * step) [0..<nat ((start - stop - step - 1) div (- step))]))"

text \<open>
  Modelled from the spec: \<^verbatim>\<open>slice_to_list\<close> of utils.py is not among the sources. The spec
  speaks of the element range a selector "denotes" (4.1); this is the list of ids a Python
  slice selects among \<open>max_len\<close> elements, with Python's defaults and clamping of the bounds.
\<close>

definition clamp_bound :: "int \<Rightarrow> int \<Rightarrow> int \<Rightarrow> int \<Rightarrow> int" where
  "clamp_bound lower upper len b = (if b < 0 then max (b + len) lower else min b upper)"

fun slice_to_list :: "selector \<Rightarrow> nat \<Rightarrow> error + int list" where
  "slice_to_list (Slice start stop step) max_len =
     (let st = (case step of None \<Rightarrow> 1 | Some s \<Rightarrow> s);
          len = int max_len;
          lower = (if st < 0 then - 1 else 0);
          upper = (if st < 0 then len - 1 else len);
          a = (case start of None \<Rightarrow> (if st < 0 then upper else lower)
                 | Some b \<Rightarrow> clamp_bound lower upper len b);
          z = (case stop of None \<Rightarrow> (if st < 0 then lower else upper)
                 | Some b \<Rightarrow> clamp_bound lower upper len b)
      in py_range a z st)"
| "slice_to_list (Idx i) max_len = Inl TypeError"
| "slice_to_list (IdxList xs) max_len = Inl TypeError"

text \<open>
  Modelled from the spec: \<^verbatim>\<open>int_to_list\<close> and \<^verbatim>\<open>check_and_expand\<close> of utils.py are not among
  the sources. Spec 4.2: "one side may be a single value applied to every pair in the other
  side; otherwise lengths must be equal, else InvalidArgument".
\<close>

fun int_to_list :: "int_or_list \<Rightarrow> int list" where
  "int_to_list (I x) = [x]"
| "int_to_list (L xs) = xs"

definition check_and_expand :: "int list \<Rightarrow> int list \<Rightarrow> error + (int list \<times> int list)" where
  "check_and_expand x y =
     (if length x = length y then Inr (x, y)
      else if length x = 1 then Inr (replicate (length y) (hd x), y)
      else if length y = 1 then Inr (x, replicate (length x) (hd y))
      else Inl ValueError)"

text \<open>
  Modelled from the spec: \<^verbatim>\<open>entail_zero_padding\<close> of utils.py is not among the sources.
  Spec 4.3: "every array currently present is extended by k elements whose value is the
  additive identity (zero) of that array's numeric type and shape (same trailing shape as
  existing elements); arrays that are absent remain absent".
\<close>

definition zero_rows :: "nat \<Rightarrow> nat list \<Rightarrow> ('a::zero) list list" where
  "zero_rows k tr = replicate k (replicate (prod_list tr) 0)"

fun entail_zero_padding :: "('a::zero) tensor option \<Rightarrow> nat \<Rightarrow> 'a tensor option" where
  "entail_zero_padding None num_rows = None"
| "entail_zero_padding (Some old_tensor) num_rows =
     Some (Tensor (trailing old_tensor) (rows old_tensor @ zero_rows num_rows (trailing old_tensor)))"

subsection \<open>The state of a GraphData object\<close>

text \<open>
  An attribute record is a dictionary from attribute names to arbitrary values (\<open>None\<close> is
  Python's \<^verbatim>\<open>None\<close>); a feature table maps a feature name to a tensor or to \<^verbatim>\<open>None\<close>.
\<close>

type_synonym 'v attr_record = "(string \<times> 'v option) list"

type_synonym 'a feature_table = "(string \<times> 'a tensor option) list"

record ('a, 'v) graph =
  node_attributes :: "'v attr_record list"
  node_features :: "'a feature_table"
  edge_indices_src :: "int list"
  edge_indices_tgt :: "int list"
  nids_eid_mapping :: "((int \<times> int) \<times> nat) list"
  edge_features :: "'a feature_table"
  edge_attributes :: "'v attr_record list"
  graph_attributes :: "(string \<times> 'v) list"
  device :: "string option"
  is_batch :: bool
  batch :: "nat list option"
  batch_size :: "nat option"
  batch_num_nodes :: "nat list option"
  batch_num_edges :: "nat list option"

definition res_init_node_attr :: "'v attr_record" where
  "res_init_node_attr = [(''node_attr'', None)]"

definition res_init_node_features :: "'a feature_table" where
  "res_init_node_features = [(''node_feat'', None), (''node_emb'', None)]"

definition res_init_edge_features :: "'a feature_table" where
  "res_init_edge_features = [(''edge_feat'', None), (''edge_emb'', None), (''edge_weight'', None)]"

definition res_init_edge_attributes :: "'v attr_record" where
  "res_init_edge_attributes = [(''edge_attr'', None)]"

text \<open>\<^verbatim>\<open>GraphData.__init__\<close> up to the test of \<^verbatim>\<open>src\<close> (lines 55-70).\<close>

definition init_storage :: "string option \<Rightarrow> ('a, 'v) graph" where
  "init_storage dev =
     \<lparr> node_attributes = [], node_features = res_init_node_features,
       edge_indices_src = [], edge_indices_tgt = [], nids_eid_mapping = [],
       edge_features = res_init_edge_features, edge_attributes = [],
       graph_attributes = [], device = dev,
       is_batch = False, batch = None, batch_size = None,
       batch_num_nodes = None, batch_num_edges = None \<rparr>"

subsection \<open>Node operations\<close>

definition get_node_num :: "('a, 'v) graph \<Rightarrow> nat" where
  "get_node_num g = length (node_attributes g)"

text \<open>
  \<^verbatim>\<open>add_nodes\<close>: the loop over the keys of the feature table assigns to every key the padded
  value of that key, which is the table with \<^verbatim>\<open>entail_zero_padding\<close> mapped over its values.
\<close>

definition pad_features :: "('a::zero) feature_table \<Rightarrow> nat \<Rightarrow> 'a feature_table" where
  "pad_features fs k = map (\<lambda>(key, v). (key, entail_zero_padding v k)) fs"

definition add_nodes :: "('a::zero, 'v) graph \<Rightarrow> int \<Rightarrow> ('a, 'v) graph outcome" where
  "add_nodes g node_num =
     (if \<not> 0 < node_num then Raise AssertionError g
      else Done (g\<lparr> node_attributes :=
                      node_attributes g @ replicate (nat node_num) res_init_node_attr,
                    node_features := pad_features (node_features g) (nat node_num) \<rparr>))"

text \<open>
  \<^verbatim>\<open>get_node_features\<close> and \<^verbatim>\<open>get_edge_feature\<close>: the loop over the keys of the table. The
  read \<^verbatim>\<open>tensor[nodes]\<close> is torch's indexing, taken as the parameter \<open>getitem\<close>; it can
  raise (an index out of range).
\<close>

fun read_features ::
  "('a tensor \<Rightarrow> selector \<Rightarrow> error + 'b) \<Rightarrow> 'a feature_table \<Rightarrow> selector \<Rightarrow> string list \<Rightarrow>
   (string \<times> 'b option) list \<Rightarrow> error + (string \<times> 'b option) list" where
  "read_features getitem fs sel [] ret = Inr ret"
| "read_features getitem fs sel (key # keys) ret =
     (case map_of fs key of
        None \<Rightarrow> Inl KeyError
      | Some None \<Rightarrow> read_features getitem fs sel keys (AList.update key None ret)
      | Some (Some t) \<Rightarrow>
          (case getitem t sel of
             Inl e \<Rightarrow> Inl e
           | Inr x \<Rightarrow> read_features getitem fs sel keys (AList.update key (Some x) ret)))"

definition get_node_features ::
  "('a tensor \<Rightarrow> selector \<Rightarrow> error + 'b) \<Rightarrow> ('a, 'v) graph \<Rightarrow> selector \<Rightarrow>
   error + (string \<times> 'b option) list" where
  "get_node_features getitem g nodes =
     read_features getitem (node_features g) nodes (map fst (node_features g)) []"

definition node_feature_names :: "('a, 'v) graph \<Rightarrow> string list" where
  "node_feature_names g = map fst (node_features g)"

text \<open>\<^verbatim>\<open>key not in table or table[key] is None\<close>\<close>

definition is_new_feature :: "'a feature_table \<Rightarrow> string \<Rightarrow> bool" where
  "is_new_feature fs key = (case map_of fs key of Some (Some t) \<Rightarrow> False | _ \<Rightarrow> True)"

text \<open>
  The consistency check of \<^verbatim>\<open>set_node_features\<close> and \<^verbatim>\<open>set_edge_feature\<close> (they differ in
  the exception \<open>exc\<close> raised): \<open>None\<close> when every key passes.
\<close>

fun consistency_check ::
  "error \<Rightarrow> 'a feature_table \<Rightarrow> nat \<Rightarrow> selector \<Rightarrow> string list \<Rightarrow> error option" where
  "consistency_check exc fs n sel [] = None"
| "consistency_check exc fs n sel (key # keys) =
     (if is_new_feature fs key
      then (if \<not> is_slice sel then Some exc
            else (case slice_to_list sel n of
                    Inl e \<Rightarrow> Some e
                  | Inr ids \<Rightarrow>
                      if length ids \<noteq> n then Some exc
                      else consistency_check exc fs n sel keys))
      else consistency_check exc fs n sel keys)"

text \<open>
  The modification loop of \<^verbatim>\<open>set_node_features\<close>. The in-place write
  \<^verbatim>\<open>tensor[nodes] = value\<close> is torch's, taken as the parameter \<open>setitem\<close>.
\<close>

fun node_modification ::
  "('a tensor \<Rightarrow> selector \<Rightarrow> 'a tensor \<Rightarrow> error + 'a tensor) \<Rightarrow> ('a, 'v) graph \<Rightarrow> selector \<Rightarrow>
   (string \<times> 'a tensor) list \<Rightarrow> ('a, 'v) graph outcome" where
  "node_modification setitem g nodes [] = Done g"
| "node_modification setitem g nodes ((key, val) # rest) =
     (if shape0 val \<noteq> get_node_num g then Raise AssertionError g
      else (case map_of (node_features g) key of
              Some (Some old) \<Rightarrow>
                if nodes = Slice None None None
                then node_modification setitem
                       (g\<lparr>node_features := AList.update key (Some val) (node_features g)\<rparr>) nodes rest
                else (case setitem old nodes val of
                        Inl e \<Rightarrow> Raise e g
                      | Inr new \<Rightarrow>
                          node_modification setitem
                            (g\<lparr>node_features := AList.update key (Some new) (node_features g)\<rparr>)
                            nodes rest)
            | _ \<Rightarrow>
                node_modification setitem
                  (g\<lparr>node_features := AList.update key (Some val) (node_features g)\<rparr>) nodes rest))"

definition set_node_features ::
  "('a tensor \<Rightarrow> selector \<Rightarrow> 'a tensor \<Rightarrow> error + 'a tensor) \<Rightarrow> ('a, 'v) graph \<Rightarrow> selector \<Rightarrow>
   (string \<times> 'a tensor) list \<Rightarrow> ('a, 'v) graph outcome" where
  "set_node_features setitem g nodes new_data =
     (case consistency_check ValueError (node_features g) (get_node_num g) nodes (map fst new_data) of
        Some e \<Rightarrow> Raise e g
      | None \<Rightarrow> node_modification setitem g nodes new_data)"

subsection \<open>Edge operations\<close>

definition get_edge_num :: "('a, 'v) graph \<Rightarrow> nat" where
  "get_edge_num g = length (edge_indices_src g)"

text \<open>The endpoint test of \<^verbatim>\<open>add_edge\<close> and \<^verbatim>\<open>add_edges\<close>, as written (lines 302 and 347).\<close>

definition endpoint_check_fails :: "('a, 'v) graph \<Rightarrow> int \<Rightarrow> int \<Rightarrow> bool" where
  "endpoint_check_fails g src tgt =
     ((src < 0 \<or> src \<ge> int (get_node_num g)) \<and> (tgt < 0 \<and> tgt \<ge> int (get_node_num g)))"

text \<open>
  \<^verbatim>\<open>add_edge\<close> and \<^verbatim>\<open>add_edges\<close> return the warnings they emit (the endpoint pairs
  skipped as duplicates) beside the outcome.
\<close>

definition add_edge ::
  "('a::zero, 'v) graph \<Rightarrow> int \<Rightarrow> int \<Rightarrow> (int \<times> int) list \<times> ('a, 'v) graph outcome" where
  "add_edge g src tgt =
     (if endpoint_check_fails g src tgt then ([], Raise ValueError g)
      else if map_of (nids_eid_mapping g) (src, tgt) \<noteq> None then ([(src, tgt)], Done g)
      else ([], Done (g\<lparr> nids_eid_mapping :=
                             AList.update (src, tgt) (get_edge_num g) (nids_eid_mapping g),
                           edge_indices_src := edge_indices_src g @ [src],
                           edge_indices_tgt := edge_indices_tgt g @ [tgt],
                           edge_attributes := edge_attributes g @ [res_init_edge_attributes],
                           edge_features := pad_features (edge_features g) 1 \<rparr>)))"

text \<open>
  The duplicate scan of \<^verbatim>\<open>add_edges\<close> (lines 352-359): one step per position \<open>i\<close>, on the
  mapping and the list of duplicate positions.
\<close>

definition scan_step ::
  "nat \<Rightarrow> nat \<times> (int \<times> int) \<Rightarrow> ((int \<times> int) \<times> nat) list \<times> nat list \<Rightarrow>
   ((int \<times> int) \<times> nat) list \<times> nat list" where
  "scan_step current_num_edges ie st =
     (if map_of (fst st) (snd ie) \<noteq> None then (fst st, snd st @ [fst ie])
      else (AList.update (snd ie) (current_num_edges + fst ie) (fst st), snd st))"

text \<open>\<^verbatim>\<open>xs.pop(i)\<close> for a position of the list.\<close>

definition list_pop :: "nat \<Rightarrow> 'x list \<Rightarrow> 'x list" where
  "list_pop i xs = take i xs @ drop (Suc i) xs"

definition add_edges ::
  "('a::zero, 'v) graph \<Rightarrow> int_or_list \<Rightarrow> int_or_list \<Rightarrow>
   (int \<times> int) list \<times> ('a, 'v) graph outcome" where
  "add_edges g src0 tgt0 =
     (case check_and_expand (int_to_list src0) (int_to_list tgt0) of
        Inl e \<Rightarrow> ([], Raise e g)
      | Inr (src, tgt) \<Rightarrow>
          if length src \<noteq> length tgt then ([], Raise AssertionError g)
          else if list_ex (\<lambda>(s, t). endpoint_check_fails g s t) (zip src tgt)
          then ([], Raise ValueError g)
          else
            let current_num_edges = length (edge_attributes g);
                scanned = fold (scan_step current_num_edges)
                            (zip [0..<length src] (zip src tgt)) (nids_eid_mapping g, []);
                duplicate_edge_indices = snd scanned;
                src' = fold list_pop (rev duplicate_edge_indices) src;
                tgt' = fold list_pop (rev duplicate_edge_indices) tgt;
                num_edges = length src'
            in (map (\<lambda>i. (src ! i, tgt ! i)) duplicate_edge_indices,
                Done (g\<lparr> nids_eid_mapping := fst scanned,
                        edge_indices_src := edge_indices_src g @ src',
                        edge_indices_tgt := edge_indices_tgt g @ tgt',
                        edge_attributes :=
                          edge_attributes g @ replicate num_edges res_init_edge_attributes,
                        edge_features := pad_features (edge_features g) num_edges \<rparr>)))"

text \<open>\<^verbatim>\<open>edge_ids\<close>: a pair that is not in the mapping is an EdgeNotFoundException.\<close>

fun lookup_edges ::
  "((int \<times> int) \<times> nat) list \<Rightarrow> (int \<times> int) list \<Rightarrow> error + nat list" where
  "lookup_edges m [] = Inr []"
| "lookup_edges m (p # ps) =
     (case map_of m p of
        None \<Rightarrow> Inl EdgeNotFoundException
      | Some eid \<Rightarrow>
          (case lookup_edges m ps of Inl e \<Rightarrow> Inl e | Inr eids \<Rightarrow> Inr (eid # eids)))"

definition edge_ids :: "('a, 'v) graph \<Rightarrow> int_or_list \<Rightarrow> int_or_list \<Rightarrow> error + nat list" where
  "edge_ids g src0 tgt0 =
     (case check_and_expand (int_to_list src0) (int_to_list tgt0) of
        Inl e \<Rightarrow> Inl e
      | Inr (src, tgt) \<Rightarrow> lookup_edges (nids_eid_mapping g) (zip src tgt))"

text \<open>
  \<^verbatim>\<open>get_all_edges\<close> reads \<^verbatim>\<open>tgt[i]\<close> for every position of \<^verbatim>\<open>src\<close>: an IndexError when
  the target list is the shorter one.
\<close>

definition get_all_edges :: "('a, 'v) graph \<Rightarrow> error + (int \<times> int) list" where
  "get_all_edges g =
     (if length (edge_indices_tgt g) < length (edge_indices_src g) then Inl IndexError
      else Inr (zip (edge_indices_src g) (edge_indices_tgt g)))"

definition get_edge_feature ::
  "('a tensor \<Rightarrow> selector \<Rightarrow> error + 'b) \<Rightarrow> ('a, 'v) graph \<Rightarrow> selector \<Rightarrow>
   error + (string \<times> 'b option) list" where
  "get_edge_feature getitem g edges =
     read_features getitem (edge_features g) edges (map fst (edge_features g)) []"

definition get_edge_feature_names :: "('a, 'v) graph \<Rightarrow> string list" where
  "get_edge_feature_names g = map fst (edge_features g)"

text \<open>
  The modification loop of \<^verbatim>\<open>set_edge_feature\<close>; \<^verbatim>\<open>value.to(self.device)\<close> moves the
  tensor and keeps its values.
\<close>

fun edge_modification ::
  "('a tensor \<Rightarrow> selector \<Rightarrow> 'a tensor \<Rightarrow> error + 'a tensor) \<Rightarrow> ('a, 'v) graph \<Rightarrow> selector \<Rightarrow>
   (string \<times> 'a tensor) list \<Rightarrow> ('a, 'v) graph outcome" where
  "edge_modification setitem g edges [] = Done g"
| "edge_modification setitem g edges ((key, val) # rest) =
     (if shape0 val \<noteq> get_edge_num g then Raise AssertionError g
      else (case map_of (edge_features g) key of
              Some (Some old) \<Rightarrow>
                if edges = Slice None None None
                then edge_modification setitem
                       (g\<lparr>edge_features := AList.update key (Some val) (edge_features g)\<rparr>) edges rest
                else (case setitem old edges val of
                        Inl e \<Rightarrow> Raise e g
                      | Inr new \<Rightarrow>
                          edge_modification setitem
                            (g\<lparr>edge_features := AList.update key (Some new) (edge_features g)\<rparr>)
                            edges rest)
            | _ \<Rightarrow>
                edge_modification setitem
                  (g\<lparr>edge_features := AList.update key (Some val) (edge_features g)\<rparr>) edges rest))"

definition set_edge_feature ::
  "('a tensor \<Rightarrow> selector \<Rightarrow> 'a tensor \<Rightarrow> error + 'a tensor) \<Rightarrow> ('a, 'v) graph \<Rightarrow> selector \<Rightarrow>
   (string \<times> 'a tensor) list \<Rightarrow> ('a, 'v) graph outcome" where
  "set_edge_feature setitem g edges new_data =
     (case consistency_check SizeMismatchException (edge_features g) (get_edge_num g) edges
             (map fst new_data) of
        Some e \<Rightarrow> Raise e g
      | None \<Rightarrow> edge_modification setitem g edges new_data)"

subsection \<open>Copies of a graph\<close>

text \<open>
  \<^verbatim>\<open>to(device)\<close> moves every feature tensor to the device and records the device; the
  values of the tensors stay as they are.
\<close>

definition to_device :: "('a, 'v) graph \<Rightarrow> string option \<Rightarrow> ('a, 'v) graph" where
  "to_device g dev = g\<lparr>device := dev\<rparr>"

definition copy_batch_info :: "('a, 'v) graph \<Rightarrow> ('a, 'v) graph \<Rightarrow> ('a, 'v) graph" where
  "copy_batch_info g b =
     g\<lparr> is_batch := True, batch := batch b, device := device b, batch_size := batch_size b,
        batch_num_edges := batch_num_edges b, batch_num_nodes := batch_num_nodes b \<rparr>"

definition from_graphdata :: "('a::zero, 'v) graph \<Rightarrow> ('a, 'v) graph \<Rightarrow> ('a, 'v) graph outcome" where
  "from_graphdata g src =
     (case add_nodes g (int (get_node_num src)) of
        Raise e g1 \<Rightarrow> Raise e g1
      | Done g1 \<Rightarrow>
          (case snd (add_edges g1 (L (edge_indices_src src)) (L (edge_indices_tgt src))) of
             Raise e g2 \<Rightarrow> Raise e g2
           | Done g2 \<Rightarrow>
               let g3 = g2\<lparr> node_features :=
                               fold (\<lambda>(k, v). AList.update k v) (node_features src) (node_features g2),
                             edge_features :=
                               fold (\<lambda>(k, v). AList.update k v) (edge_features src) (edge_features g2),
                             node_attributes := node_attributes src,
                             edge_attributes := edge_attributes src,
                             graph_attributes := graph_attributes src \<rparr>;
                   g4 = (if is_batch src then copy_batch_info g3 src else g3)
               in Done (to_device g4 (device src))))"

text \<open>
  The constructor \<^verbatim>\<open>GraphData(src, device)\<close>: an exception leaves no object behind.
\<close>

definition GraphData_init ::
  "('a::zero, 'v) graph option \<Rightarrow> string option \<Rightarrow> error + ('a, 'v) graph" where
  "GraphData_init src dev =
     (case src of
        None \<Rightarrow> Inr (init_storage dev)
      | Some s \<Rightarrow> commit (from_graphdata (init_storage dev) s))"

subsection \<open>The accessor views of views.py\<close>

text \<open>
  Modelled from the spec: the views of views.py are not among the sources. Spec 2: "thin,
  stateless windows over a Graph restricting operations to a subset of ids or feature
  names; not independently stateful, always backed by the owning Graph".
  \<^verbatim>\<open>g.node_features\<close> is the window \<^verbatim>\<open>g.nodes[:]\<close> over all nodes (line 153): its
  \<^verbatim>\<open>keys()\<close> are the feature names, reading a name gives the stored array of that name
  (or \<^verbatim>\<open>None\<close>), and an assignment to a name is \<^verbatim>\<open>set_node_features\<close> with the selector
  \<^verbatim>\<open>slice(None, None, None)\<close>. \<^verbatim>\<open>g.edge_features\<close> is the same over the edges.
\<close>

definition view_set_node_feature ::
  "('a tensor \<Rightarrow> selector \<Rightarrow> 'a tensor \<Rightarrow> error + 'a tensor) \<Rightarrow> ('a, 'v) graph \<Rightarrow> string \<Rightarrow>
   'a tensor \<Rightarrow> ('a, 'v) graph outcome" where
  "view_set_node_feature setitem g k v = set_node_features setitem g (Slice None None None) [(k, v)]"

definition view_set_edge_feature ::
  "('a tensor \<Rightarrow> selector \<Rightarrow> 'a tensor \<Rightarrow> error + 'a tensor) \<Rightarrow> ('a, 'v) graph \<Rightarrow> string \<Rightarrow>
   'a tensor \<Rightarrow> ('a, 'v) graph outcome" where
  "view_set_edge_feature setitem g k v = set_edge_feature setitem g (Slice None None None) [(k, v)]"

subsection \<open>to_batch\<close>

text \<open>
  Steps 2 and 5, first loop: the arrays of every feature name, in the order of the graphs.
  \<open>collect_features\<close> is the inner loop over the feature names of one graph.
\<close>

fun collect_features ::
  "'a feature_table \<Rightarrow> (string \<times> 'a tensor option list) list \<Rightarrow>
   (string \<times> 'a tensor option list) list" where
  "collect_features [] acc = acc"
| "collect_features ((feature_name, v) # kvs) acc =
     collect_features kvs
       (case map_of acc feature_name of
          Some vs \<Rightarrow> AList.update feature_name (vs @ [v]) acc
        | None \<Rightarrow> AList.update feature_name [v] acc)"

text \<open>
  Steps 2 and 5, second loop: a name whose list holds \<^verbatim>\<open>None\<close> is skipped
  (\<open>those v = None\<close>), the others are concatenated and assigned through the view (\<open>assign\<close>).
\<close>

fun set_batch_features ::
  "('g \<Rightarrow> string \<Rightarrow> 'a tensor \<Rightarrow> 'g outcome) \<Rightarrow> (string \<times> 'a tensor option list) list \<Rightarrow> 'g \<Rightarrow>
   error + 'g" where
  "set_batch_features assign [] big_graph = Inr big_graph"
| "set_batch_features assign ((k, v) # kvs) big_graph =
     (case those v of
        None \<Rightarrow> set_batch_features assign kvs big_graph
      | Some ts \<Rightarrow>
          (case torch_cat ts of
             Inl e \<Rightarrow> Inl e
           | Inr feature_tensor \<Rightarrow>
               (case commit (assign big_graph k feature_tensor) of
                  Inl e \<Rightarrow> Inl e
                | Inr big_graph' \<Rightarrow> set_batch_features assign kvs big_graph')))"

text \<open>
  \<open>copy_records dest d items s k\<close> is a loop of \<open>k\<close> rounds of
  \<^verbatim>\<open>dest[d] = items[s]\<close>, with \<open>d\<close> and \<open>s\<close> advancing by one: the attribute loops of
  \<^verbatim>\<open>to_batch\<close> (steps 3 and 6) and of \<^verbatim>\<open>from_batch\<close>. A position outside a list is an
  IndexError.
\<close>

fun copy_records :: "'x list \<Rightarrow> nat \<Rightarrow> 'x list \<Rightarrow> nat \<Rightarrow> nat \<Rightarrow> error + 'x list" where
  "copy_records dest d items s 0 = Inr dest"
| "copy_records dest d items s (Suc k) =
     (if s < length items \<and> d < length dest
      then copy_records (dest[d := items ! s]) (Suc d) items (Suc s) k
      else Inl IndexError)"

text \<open>Steps 3 and 6: the outer loop over the graphs, \<open>total_count\<close> the running position.\<close>

fun copy_attributes ::
  "('g \<Rightarrow> 'x list) \<Rightarrow> ('g \<Rightarrow> nat) \<Rightarrow> 'x list \<Rightarrow> nat \<Rightarrow> 'g list \<Rightarrow> error + 'x list" where
  "copy_attributes attrs num dest total_count [] = Inr dest"
| "copy_attributes attrs num dest total_count (g # gs) =
     (case copy_records dest total_count (attrs g) 0 (num g) of
        Inl e \<Rightarrow> Inl e
      | Inr dest' \<Rightarrow> copy_attributes attrs num dest' (total_count + num g) gs)"

text \<open>Step 4: \<^verbatim>\<open>stack_edge_indices\<close>.\<close>

fun stack_edge_indices ::
  "('a, 'v) graph list \<Rightarrow> nat \<Rightarrow> int list \<times> int list \<Rightarrow> error + (int list \<times> int list)" where
  "stack_edge_indices [] cumulative_node_num all_edge_indices = Inr all_edge_indices"
| "stack_edge_indices (g # gs) cumulative_node_num all_edge_indices =
     (case get_all_edges g of
        Inl e \<Rightarrow> Inl e
      | Inr edges \<Rightarrow>
          stack_edge_indices gs (cumulative_node_num + get_node_num g)
            (fst all_edge_indices @ map (\<lambda>e. fst e + int cumulative_node_num) edges,
             snd all_edge_indices @ map (\<lambda>e. snd e + int cumulative_node_num) edges))"

definition to_batch ::
  "('a tensor \<Rightarrow> selector \<Rightarrow> 'a tensor \<Rightarrow> error + 'a tensor) \<Rightarrow> ('a::zero, 'v) graph list \<Rightarrow>
   error + ('a, 'v) graph" where
  "to_batch setitem graphs =
     (if graphs = [] then Inl AssertionError
      else
        case GraphData_init None None of Inl e \<Rightarrow> Inl e | Inr big0 \<Rightarrow>
        let big1 = big0\<lparr>is_batch := True, device := device (hd graphs)\<rparr>;
            total_num_nodes = sum_list (map get_node_num graphs)
        in
        case commit (add_nodes big1 (int total_num_nodes)) of Inl e \<Rightarrow> Inl e | Inr big2 \<Rightarrow>
        case set_batch_features (view_set_node_feature setitem)
               (fold (\<lambda>g. collect_features (node_features g)) graphs []) big2 of
          Inl e \<Rightarrow> Inl e | Inr big3 \<Rightarrow>
        case copy_attributes node_attributes get_node_num (node_attributes big3) 0 graphs of
          Inl e \<Rightarrow> Inl e | Inr node_attrs \<Rightarrow>
        let big4 = big3\<lparr>node_attributes := node_attrs\<rparr> in
        case stack_edge_indices graphs 0 ([], []) of Inl e \<Rightarrow> Inl e | Inr all_edge_indices \<Rightarrow>
        case commit (snd (add_edges big4 (L (fst all_edge_indices)) (L (snd all_edge_indices)))) of
          Inl e \<Rightarrow> Inl e | Inr big5 \<Rightarrow>
        case set_batch_features (view_set_edge_feature setitem)
               (fold (\<lambda>g. collect_features (edge_features g)) graphs []) big5 of
          Inl e \<Rightarrow> Inl e | Inr big6 \<Rightarrow>
        case copy_attributes edge_attributes get_edge_num (edge_attributes big6) 0 graphs of
          Inl e \<Rightarrow> Inl e | Inr edge_attrs \<Rightarrow>
        Inr (big6\<lparr> edge_attributes := edge_attrs,
                   batch_size := Some (length graphs),
                   batch := Some (concat (map (\<lambda>i. replicate (get_node_num (graphs ! i)) i)
                                            [0..<length graphs])),
                   batch_num_nodes := Some (map get_node_num graphs),
                   batch_num_edges := Some (map get_edge_num graphs) \<rparr>))"

subsection \<open>from_batch\<close>

text \<open>\<^verbatim>\<open>xs[i]\<close> where \<^verbatim>\<open>xs\<close> may be \<^verbatim>\<open>None\<close> (a TypeError) or too short (an IndexError).\<close>

definition subscript :: "'x list option \<Rightarrow> nat \<Rightarrow> error + 'x" where
  "subscript xs i =
     (case xs of
        None \<Rightarrow> Inl TypeError
      | Some ys \<Rightarrow> if i < length ys then Inr (ys ! i) else Inl IndexError)"

text \<open>The first loop (lines 885-893): one new graph per position of the batch.\<close>

fun construct_graphs ::
  "('a::zero, 'v) graph \<Rightarrow> (int \<times> int) list \<Rightarrow> nat list \<Rightarrow>
   ('a, 'v) graph list \<times> nat \<times> nat \<Rightarrow> error + (('a, 'v) graph list \<times> nat \<times> nat)" where
  "construct_graphs b all_edges [] st = Inr st"
| "construct_graphs b all_edges (i # is) st =
     (case st of (ret, cum_n_nodes, cum_n_edges) \<Rightarrow>
      case GraphData_init None (device b) of Inl e \<Rightarrow> Inl e | Inr g0 \<Rightarrow>
      case subscript (batch_num_nodes b) i of Inl e \<Rightarrow> Inl e | Inr n \<Rightarrow>
      case commit (add_nodes g0 (int n)) of Inl e \<Rightarrow> Inl e | Inr g1 \<Rightarrow>
      case subscript (batch_num_edges b) i of Inl e \<Rightarrow> Inl e | Inr m \<Rightarrow>
      let edges = take m (drop cum_n_edges all_edges);
          src = map (\<lambda>e. fst e - int cum_n_nodes) edges;
          tgt = map (\<lambda>e. snd e - int cum_n_nodes) edges
      in
      case commit (snd (add_edges g1 (L src) (L tgt))) of Inl e \<Rightarrow> Inl e | Inr g2 \<Rightarrow>
      construct_graphs b all_edges is (ret @ [g2], cum_n_nodes + n, cum_n_edges + m))"

text \<open>
  The feature loops (lines 897-909): \<open>split_feature\<close> is the inner loop over the graphs for
  one feature, \<open>split_features\<close> the loop over the table of the batch.
\<close>

fun split_feature ::
  "('g \<Rightarrow> string \<Rightarrow> 'a tensor \<Rightarrow> 'g outcome) \<Rightarrow> nat list option \<Rightarrow> string \<Rightarrow> 'a tensor \<Rightarrow>
   nat list \<Rightarrow> nat \<Rightarrow> 'g list \<Rightarrow> error + 'g list" where
  "split_feature assign nums k v [] cum ret = Inr ret"
| "split_feature assign nums k v (i # is) cum ret =
     (case subscript nums i of
        Inl e \<Rightarrow> Inl e
      | Inr n \<Rightarrow>
          if i < length ret
          then (case commit (assign (ret ! i) k (tensor_slice v cum (cum + n))) of
                  Inl e \<Rightarrow> Inl e
                | Inr g' \<Rightarrow> split_feature assign nums k v is (cum + n) (ret[i := g']))
          else Inl IndexError)"

fun split_features ::
  "('g \<Rightarrow> string \<Rightarrow> 'a tensor \<Rightarrow> 'g outcome) \<Rightarrow> nat list option \<Rightarrow> nat \<Rightarrow> 'a feature_table \<Rightarrow>
   'g list \<Rightarrow> error + 'g list" where
  "split_features assign nums bs [] ret = Inr ret"
| "split_features assign nums bs ((k, v) # kvs) ret =
     (case v of
        None \<Rightarrow> split_features assign nums bs kvs ret
      | Some t \<Rightarrow>
          (case split_feature assign nums k t [0..<bs] 0 ret of
             Inl e \<Rightarrow> Inl e
           | Inr ret' \<Rightarrow> split_features assign nums bs kvs ret'))"

text \<open>
  The attribute loop (lines 915-921). \<^verbatim>\<open>ret[graph_cnt]\<close> is read in the bodies of the two
  inner loops only: a position outside \<^verbatim>\<open>ret\<close> is an IndexError when one of them runs.
\<close>

fun split_attributes ::
  "('a, 'v) graph \<Rightarrow> nat list \<Rightarrow> nat \<Rightarrow> nat \<Rightarrow> ('a, 'v) graph list \<Rightarrow>
   error + ('a, 'v) graph list" where
  "split_attributes b [] cum_n_nodes cum_n_edges ret = Inr ret"
| "split_attributes b (graph_cnt # cnts) cum_n_nodes cum_n_edges ret =
     (case subscript (batch_num_nodes b) graph_cnt of Inl e \<Rightarrow> Inl e | Inr n \<Rightarrow>
      if graph_cnt < length ret
      then
        case copy_records (node_attributes (ret ! graph_cnt)) 0 (node_attributes b) cum_n_nodes n of
          Inl e \<Rightarrow> Inl e | Inr node_attrs \<Rightarrow>
        case subscript (batch_num_edges b) graph_cnt of Inl e \<Rightarrow> Inl e | Inr m \<Rightarrow>
        case copy_records (edge_attributes (ret ! graph_cnt)) 0 (edge_attributes b) cum_n_edges m of
          Inl e \<Rightarrow> Inl e | Inr edge_attrs \<Rightarrow>
        split_attributes b cnts (cum_n_nodes + n) (cum_n_edges + m)
          (ret[graph_cnt := (ret ! graph_cnt)\<lparr>node_attributes := node_attrs,
                                                edge_attributes := edge_attrs\<rparr>])
      else if 0 < n then Inl IndexError
      else
        case subscript (batch_num_edges b) graph_cnt of Inl e \<Rightarrow> Inl e | Inr m \<Rightarrow>
        if 0 < m then Inl IndexError
        else split_attributes b cnts (cum_n_nodes + n) (cum_n_edges + m) ret)"

definition from_batch ::
  "('a tensor \<Rightarrow> selector \<Rightarrow> 'a tensor \<Rightarrow> error + 'a tensor) \<Rightarrow> ('a::zero, 'v) graph \<Rightarrow>
   error + ('a, 'v) graph list" where
  "from_batch setitem b =
     (case get_all_edges b of Inl e \<Rightarrow> Inl e | Inr all_edges \<Rightarrow>
      case batch_size b of None \<Rightarrow> Inl TypeError | Some bs \<Rightarrow>
      case construct_graphs b all_edges [0..<bs] ([], 0, 0) of Inl e \<Rightarrow> Inl e | Inr st \<Rightarrow>
      case split_features (view_set_node_feature setitem) (batch_num_nodes b) bs
             (node_features b) (fst st) of
        Inl e \<Rightarrow> Inl e | Inr ret1 \<Rightarrow>
      case split_features (view_set_edge_feature setitem) (batch_num_edges b) bs
             (edge_features b) ret1 of
        Inl e \<Rightarrow> Inl e | Inr ret2 \<Rightarrow>
      split_attributes b [0..<bs] 0 0 ret2)"

text \<open>
  Every statement of \<^verbatim>\<open>from_batch\<close> reads \<^verbatim>\<open>batch\<close> (lines 876-879, 886, 897, 904, 917
  and 919) and assigns to the new graphs and to local variables only, so \<open>from_batch\<close> is
  a function of the batch and returns the new graphs or the exception.
\<close>

subsection \<open>The invariant of the edge index (spec, section 3)\<close>

text \<open>
  The spec's words for the edge index: the map holds exactly \<open>edge_count\<close> entries, one per
  endpoint pair of the graph, and \<^verbatim>\<open>edge_index_map[(s,t)] == e\<close> exactly when the \<open>e\<close>-th stored
  edge has source \<open>s\<close> and target \<open>t\<close>.
\<close>

definition edge_index_consistent :: "('a, 'v) graph \<Rightarrow> bool" where
  "edge_index_consistent g \<longleftrightarrow>
     length (nids_eid_mapping g) = get_edge_num g \<and>
     distinct (map fst (nids_eid_mapping g)) \<and>
     length (edge_indices_tgt g) = length (edge_indices_src g) \<and>
     list_all (\<lambda>(e, p). map_of (nids_eid_mapping g) p = Some e)
       (zip [0..<get_edge_num g] (zip (edge_indices_src g) (edge_indices_tgt g))) \<and>
     list_all (\<lambda>(p, e). e < get_edge_num g \<and> (edge_indices_src g ! e, edge_indices_tgt g ! e) = p)
       (nids_eid_mapping g)"

subsection \<open>Well-formed graphs and batchable lists (for the pack/unpack round trip)\<close>

text \<open>
  The invariants of the spec (section 3) that the round trip rests on. \<open>aligned\<close> is I2: every
  present array has one row per element. \<open>well_formed\<close>: the feature tables are dictionaries
  (distinct names) and aligned, the source, target and edge attribute lists have one entry
  per edge (I1), the endpoint pairs are distinct (I3) and name nodes of the graph.
\<close>

definition aligned :: "'a feature_table \<Rightarrow> nat \<Rightarrow> bool" where
  "aligned fs n = list_all (\<lambda>(k, v). case v of None \<Rightarrow> True | Some t \<Rightarrow> shape0 t = n) fs"

definition well_formed :: "('a, 'v) graph \<Rightarrow> bool" where
  "well_formed g \<longleftrightarrow>
     distinct (map fst (node_features g)) \<and> distinct (map fst (edge_features g)) \<and>
     aligned (node_features g) (get_node_num g) \<and> aligned (edge_features g) (get_edge_num g) \<and>
     length (edge_indices_tgt g) = length (edge_indices_src g) \<and>
     length (edge_attributes g) = get_edge_num g \<and>
     distinct (zip (edge_indices_src g) (edge_indices_tgt g)) \<and>
     list_all (\<lambda>(s, t). 0 \<le> s \<and> s < int (get_node_num g) \<and> 0 \<le> t \<and> t < int (get_node_num g))
       (zip (edge_indices_src g) (edge_indices_tgt g))"

text \<open>
  A feature is present on all graphs when no graph lacks it or holds \<^verbatim>\<open>None\<close> for it.
  A list of graphs is \<open>batchable\<close> for a table when every array that is present on some
  graph is either registered with \<^verbatim>\<open>None\<close> on some graph (the feature is then dropped by
  \<^verbatim>\<open>to_batch\<close>) or present on all graphs with one trailing shape.
\<close>

definition present_on_all :: "('g \<Rightarrow> 'a feature_table) \<Rightarrow> 'g list \<Rightarrow> string \<Rightarrow> bool" where
  "present_on_all tab gs k = list_all (\<lambda>g. \<not> is_new_feature (tab g) k) gs"

definition batchable :: "('g \<Rightarrow> 'a feature_table) \<Rightarrow> 'g list \<Rightarrow> bool" where
  "batchable tab gs =
     list_all (\<lambda>g. list_all (\<lambda>(k, v). case v of
                      None \<Rightarrow> True
                    | Some t \<Rightarrow>
                        list_ex (\<lambda>h. map_of (tab h) k = Some None) gs \<or>
                        list_all (\<lambda>h. case map_of (tab h) k of
                                        Some (Some u) \<Rightarrow> trailing u = trailing t
                                      | _ \<Rightarrow> False) gs) (tab g)) gs"

subsection \<open>Functions that describe the results of the loops\<close>

text \<open>
  Used in the proofs only. \<open>column\<close>: the arrays the graphs hold for one feature name, in
  the order of the graphs. \<open>batched_table\<close>: the feature table of the batch after the second
  loop of steps 2 and 5. \<open>tensor_at\<close>: the array of a name in a table. \<open>offset ns i\<close>: the sum
  of the first \<open>i\<close> counts. \<open>rebased\<close>: the edges of each graph, shifted by the number of
  nodes before it. \<open>child_of\<close>: what the first loop of \<^verbatim>\<open>from_batch\<close> builds for a graph.
  \<open>split_table\<close>: the feature table of the \<open>i\<close>-th graph after the feature loops of
  \<^verbatim>\<open>from_batch\<close>.
\<close>

definition column :: "('g \<Rightarrow> ('k \<times> 'x) list) \<Rightarrow> 'g list \<Rightarrow> 'k \<Rightarrow> 'x list" where
  "column tab gs k = List.map_filter (\<lambda>g. map_of (tab g) k) gs"

definition batched_table ::
  "(string \<times> 'a tensor option list) list \<Rightarrow> 'a feature_table \<Rightarrow> 'a feature_table" where
  "batched_table kvs fs =
     fold (\<lambda>(k, v) fs. case those v of
                          None \<Rightarrow> fs
                        | Some ts \<Rightarrow> (case torch_cat ts of
                                       Inl e \<Rightarrow> fs
                                     | Inr t \<Rightarrow> AList.update k (Some t) fs)) kvs fs"

definition tensor_at :: "'a feature_table \<Rightarrow> string \<Rightarrow> 'a tensor" where
  "tensor_at fs k = (case map_of fs k of Some (Some t) \<Rightarrow> t | _ \<Rightarrow> Tensor [] [])"

definition offset :: "nat list \<Rightarrow> nat \<Rightarrow> nat" where
  "offset ns i = sum_list (take i ns)"

definition shift_edge :: "nat \<Rightarrow> int \<times> int \<Rightarrow> int \<times> int" where
  "shift_edge c e = (fst e + int c, snd e + int c)"

primrec rebased :: "('a, 'v) graph list \<Rightarrow> nat \<Rightarrow> (int \<times> int) list list" where
  "rebased [] c = []"
| "rebased (g # gs) c =
     map (shift_edge c) (zip (edge_indices_src g) (edge_indices_tgt g))
       # rebased gs (c + get_node_num g)"

definition child_of :: "('a, 'v) graph \<Rightarrow> ('a, 'v) graph \<Rightarrow> bool" where
  "child_of c g \<longleftrightarrow>
     node_attributes c = replicate (get_node_num g) res_init_node_attr \<and>
     node_features c = res_init_node_features \<and>
     edge_indices_src c = edge_indices_src g \<and>
     edge_indices_tgt c = edge_indices_tgt g \<and>
     edge_attributes c = replicate (get_edge_num g) res_init_edge_attributes \<and>
     edge_features c = res_init_edge_features"

definition split_table ::
  "nat list \<Rightarrow> nat \<Rightarrow> 'a feature_table \<Rightarrow> 'a feature_table \<Rightarrow> 'a feature_table" where
  "split_table ns i fs acc =
     fold (\<lambda>(k, v) acc. case v of
                          None \<Rightarrow> acc
                        | Some t \<Rightarrow>
                            AList.update k
                              (Some (tensor_slice t (offset ns i) (offset ns i + ns ! i))) acc)
       fs acc"

subsection \<open>Instances of torch's indexing, and sample graphs\<close>

text \<open>
  The theorems below hold for every behaviour of torch's \<^verbatim>\<open>tensor[sel]\<close> and
  \<^verbatim>\<open>tensor[sel] = value\<close>. At concrete inputs they are used with these instances:
  \<open>select_ids\<close> gives the rows a selector picks by torch's rules (a negative index counts
  from the end, a slice needs a positive step), \<open>select_rows\<close> reads them, and
  \<open>exact_setitem\<close> writes a value that has exactly the selected shape (torch would also
  broadcast other shapes; this instance refuses them).
\<close>

definition select_ids :: "selector \<Rightarrow> nat \<Rightarrow> error + nat list" where
  "select_ids sel n =
     (case sel of
        Idx i \<Rightarrow>
          if - int n \<le> i \<and> i < int n then Inr [nat (if i < 0 then i + int n else i)]
          else Inl IndexError
      | Slice a b c \<Rightarrow>
          (case c of
             Some s \<Rightarrow> if s \<le> 0 then Inl ValueError else map_sum id (map nat) (slice_to_list sel n)
           | None \<Rightarrow> map_sum id (map nat) (slice_to_list sel n))
      | IdxList xs \<Rightarrow>
          if list_all (\<lambda>i. - int n \<le> i \<and> i < int n) xs
          then Inr (map (\<lambda>i. nat (if i < 0 then i + int n else i)) xs)
          else Inl IndexError)"

definition select_rows :: "'a tensor \<Rightarrow> selector \<Rightarrow> error + 'a list list" where
  "select_rows t sel = map_sum id (map (\<lambda>i. rows t ! i)) (select_ids sel (shape0 t))"

definition exact_setitem :: "'a tensor \<Rightarrow> selector \<Rightarrow> 'a tensor \<Rightarrow> error + 'a tensor" where
  "exact_setitem t sel v =
     (case select_ids sel (shape0 t) of
        Inl e \<Rightarrow> Inl e
      | Inr ids \<Rightarrow>
          if trailing v = trailing t \<and> shape0 v = length ids
          then Inr (Tensor (trailing t) (fold (\<lambda>(i, r) rs. rs[i := r]) (zip ids (rows v)) (rows t)))
          else Inl RuntimeError)"

text \<open>
  \<open>one_node\<close> and \<open>two_nodes\<close>: \<^verbatim>\<open>g = GraphData(); g.add_nodes(n)\<close>. \<open>one_node_x\<close>: \<open>one_node\<close>
  after \<^verbatim>\<open>g.node_features['x'] = tensor([1])\<close>. \<open>two_nodes_feat\<close>: \<open>two_nodes\<close> after
  \<^verbatim>\<open>g.node_features['node_feat'] = tensor([[1], [2]])\<close>. \<open>two_edges\<close>: \<open>two_nodes_feat\<close> after
  \<^verbatim>\<open>g.add_edge(0, 1); g.add_edge(1, 0); g.edge_features['edge_weight'] = tensor([5, 6])\<close>.
  \<open>loop_node\<close>: one node with \<open>node_feat = tensor([[3]])\<close>, the edge \<open>(0, 0)\<close> and
  \<open>edge_weight = tensor([7])\<close>. \<open>lopsided_batch\<close>: \<^verbatim>\<open>to_batch([one_node, GraphData()])\<close>.
  \<open>twin_batch\<close>: \<^verbatim>\<open>to_batch([one_node, one_node])\<close>.
\<close>

definition one_node :: "(int, int) graph" where
  "one_node = init_storage None \<lparr> node_attributes := [res_init_node_attr] \<rparr>"

definition one_node_x :: "(int, int) graph" where
  "one_node_x = one_node \<lparr> node_features :=
      [(''node_feat'', None), (''node_emb'', None), (''x'', Some (Tensor [] [[1]]))] \<rparr>"

definition two_nodes :: "(int, int) graph" where
  "two_nodes = init_storage None \<lparr> node_attributes := [res_init_node_attr, res_init_node_attr] \<rparr>"

definition two_nodes_feat :: "(int, int) graph" where
  "two_nodes_feat = two_nodes \<lparr> node_features :=
      [(''node_feat'', Some (Tensor [1] [[1], [2]])), (''node_emb'', None)] \<rparr>"

definition two_edges :: "(int, int) graph" where
  "two_edges = two_nodes_feat \<lparr> edge_indices_src := [0, 1], edge_indices_tgt := [1, 0],
      nids_eid_mapping := [((0, 1), 0), ((1, 0), 1)],
      edge_attributes := [res_init_edge_attributes, res_init_edge_attributes],
      edge_features :=
        [(''edge_feat'', None), (''edge_emb'', None), (''edge_weight'', Some (Tensor [] [[5], [6]]))] \<rparr>"

definition loop_node :: "(int, int) graph" where
  "loop_node = one_node \<lparr> node_features := [(''node_feat'', Some (Tensor [1] [[3]])), (''node_emb'', None)],
      edge_indices_src := [0], edge_indices_tgt := [0], nids_eid_mapping := [((0, 0), 0)],
      edge_attributes := [res_init_edge_attributes],
      edge_features :=
        [(''edge_feat'', None), (''edge_emb'', None), (''edge_weight'', Some (Tensor [] [[7]]))] \<rparr>"

definition lopsided_batch :: "(int, int) graph" where
  "lopsided_batch = one_node \<lparr> is_batch := True, batch := Some [0], batch_size := Some 2,
      batch_num_nodes := Some [1, 0], batch_num_edges := Some [0, 0] \<rparr>"

definition twin_batch :: "(int, int) graph" where
  "twin_batch = one_node \<lparr> node_attributes := [res_init_node_attr, res_init_node_attr],
      is_batch := True, batch := Some [0, 1], batch_size := Some 2,
      batch_num_nodes := Some [1, 1], batch_num_edges := Some [0, 0] \<rparr>"

section \<open>Properties\<close>

subsection \<open>Evaluation and basic facts\<close>

lemmas graph_eval = add_edges_def add_edge_def check_and_expand_def endpoint_check_fails_def
  get_node_num_def get_edge_num_def two_nodes_def init_storage_def scan_step_def list_pop_def
  pad_features_def res_init_edge_features_def res_init_node_features_def
  res_init_edge_attributes_def res_init_node_attr_def get_all_edges_def edge_ids_def

lemmas batch_eval = to_batch_def from_batch_def GraphData_init_def view_set_node_feature_def
  view_set_edge_feature_def set_node_features_def set_edge_feature_def is_new_feature_def
  add_nodes_def torch_cat_def tensor_slice_def subscript_def shape0_def py_range_def
  one_node_def one_node_x_def Let_def

lemmas sample_eval = two_edges_def two_nodes_feat_def loop_node_def lopsided_batch_def
  twin_batch_def well_formed_def aligned_def batchable_def present_on_all_def

lemma commit_Done_iff: "commit r = Inr s \<longleftrightarrow> r = Done s"
  by (cases r) auto

text \<open>The sample graphs are states the public operations reach.\<close>

lemma two_nodes_reached: "add_nodes (init_storage None) 2 = Done two_nodes"
  by (simp add: add_nodes_def two_nodes_def init_storage_def pad_features_def
      res_init_node_features_def numeral_2_eq_2)

lemma one_node_x_reached:
  "set_node_features exact_setitem one_node (Slice None None None) [(''x'', Tensor [] [[1]])]
     = Done one_node_x"
  by (simp add: batch_eval graph_eval)

lemma two_nodes_feat_reached:
  "set_node_features exact_setitem two_nodes (Slice None None None)
     [(''node_feat'', Tensor [1] [[1], [2]])] = Done two_nodes_feat"
  by (simp add: batch_eval graph_eval two_nodes_feat_def)

lemma two_edges_reached:
  "snd (add_edge two_nodes_feat 0 1) = Done (two_nodes_feat\<lparr>
       nids_eid_mapping := [((0, 1), 0)], edge_indices_src := [0], edge_indices_tgt := [1],
       edge_attributes := [res_init_edge_attributes]\<rparr>)"
  "snd (add_edge (two_nodes_feat\<lparr>
       nids_eid_mapping := [((0, 1), 0)], edge_indices_src := [0], edge_indices_tgt := [1],
       edge_attributes := [res_init_edge_attributes]\<rparr>) 1 0)
     = Done (two_nodes_feat\<lparr>
       nids_eid_mapping := [((0, 1), 0), ((1, 0), 1)], edge_indices_src := [0, 1],
       edge_indices_tgt := [1, 0],
       edge_attributes := [res_init_edge_attributes, res_init_edge_attributes]\<rparr>)"
  "set_edge_feature exact_setitem (two_nodes_feat\<lparr>
       nids_eid_mapping := [((0, 1), 0), ((1, 0), 1)], edge_indices_src := [0, 1],
       edge_indices_tgt := [1, 0],
       edge_attributes := [res_init_edge_attributes, res_init_edge_attributes]\<rparr>)
     (Slice None None None) [(''edge_weight'', Tensor [] [[5], [6]])] = Done two_edges"
  by (simp_all add: two_edges_def two_nodes_feat_def graph_eval set_edge_feature_def
      is_new_feature_def shape0_def py_range_def)

lemma map_of_pad_features:
  "map_of (pad_features fs k) f = map_option (\<lambda>v. entail_zero_padding v k) (map_of fs f)"
  by (simp add: pad_features_def map_of_map)

lemma slice_to_list_full: "slice_to_list (Slice None None None) n = Inr (map int [0..<n])"
  by (simp add: py_range_def)

lemma consistency_check_full:
  "consistency_check exc fs n (Slice None None None) keys = None"
  by (induction keys) (simp_all del: slice_to_list.simps add: slice_to_list_full)


lemma set_node_features_full:
  "shape0 val = get_node_num g \<Longrightarrow>
   set_node_features setitem g (Slice None None None) [(key, val)] =
     Done (g\<lparr>node_features := AList.update key (Some val) (node_features g)\<rparr>)"
  by (simp del: consistency_check.simps
      add: set_node_features_def consistency_check_full split: option.splits)

lemma set_edge_feature_full:
  "shape0 val = get_edge_num g \<Longrightarrow>
   set_edge_feature setitem g (Slice None None None) [(key, val)] =
     Done (g\<lparr>edge_features := AList.update key (Some val) (edge_features g)\<rparr>)"
  by (simp del: consistency_check.simps
      add: set_edge_feature_def consistency_check_full split: option.splits)

subsection \<open>The edge index\<close>

text \<open>
  C1 (the edge index map and the endpoint list stay consistent after \<^verbatim>\<open>add_edges\<close>, also
  with duplicate pairs in the call). The code breaks this: \<^verbatim>\<open>add_edges\<close> registers the
  new pair at position \<open>i\<close> of its argument under the id \<open>current_num_edges + i\<close> (line 359),
  where \<open>i\<close> still counts the duplicates that are dropped afterwards. On a graph of two nodes,
  \<^verbatim>\<open>add_edges([0, 0, 1], [1, 1, 0])\<close> stores the edges \<open>(0,1)\<close> and \<open>(1,0)\<close> under the ids 0
  and 1, and the map sends \<open>(1,0)\<close> to 2.
\<close>

theorem add_edges_duplicates_break_index:
  "(case snd (add_edges two_nodes (L [0, 0, 1]) (L [1, 1, 0])) of
      Done g \<Rightarrow>
        get_all_edges g = Inr [(0, 1), (1, 0)] \<and> get_edge_num g = 2 \<and>
        edge_ids g (I 1) (I 0) = Inr [2] \<and> \<not> edge_index_consistent g
    | Raise e g \<Rightarrow> False)"
  by (simp add: graph_eval edge_index_consistent_def upt_rec numeral_2_eq_2 numeral_3_eq_3)

text \<open>
  The endpoint test of lines 302 and 347 asks for a target that is both negative and at
  least the node count: it never holds.
\<close>

lemma endpoint_check_never_fails: "\<not> endpoint_check_fails g src tgt"
  by (simp add: endpoint_check_fails_def)

text \<open>
  The single-edge path keeps the edge index: \<^verbatim>\<open>add_edge\<close> registers a new pair under the
  edge count (lines 312-313), which is the position of the edge it appends, and a graph starts
  with an empty index that is consistent.
\<close>

lemma update_fresh: "k \<notin> fst ` set m \<Longrightarrow> AList.update k v m = m @ [(k, v)]"
  by (induction m) auto

lemma add_edge_keeps_index:
  assumes c: "edge_index_consistent g" and d: "snd (add_edge g s t) = Done g'"
  shows "edge_index_consistent g'"
proof (cases "map_of (nids_eid_mapping g) (s, t) = None")
  case False
  with d have "g' = g"
    by (simp add: add_edge_def endpoint_check_never_fails)
  with c show ?thesis by simp
next
  case True
  let ?m = "nids_eid_mapping g"
  let ?n = "get_edge_num g"
  let ?ps = "zip (edge_indices_src g) (edge_indices_tgt g)"
  from True have fresh: "(s, t) \<notin> fst ` set ?m"
    by (simp add: map_of_eq_None_iff)
  from True d have g': "g' = g\<lparr> nids_eid_mapping := AList.update (s, t) ?n ?m,
                           edge_indices_src := edge_indices_src g @ [s],
                           edge_indices_tgt := edge_indices_tgt g @ [t],
                           edge_attributes := edge_attributes g @ [res_init_edge_attributes],
                           edge_features := pad_features (edge_features g) 1 \<rparr>"
    by (simp add: add_edge_def endpoint_check_never_fails)
  from c [unfolded edge_index_consistent_def] have len: "length ?m = ?n" and dist: "distinct (map fst ?m)"
    and lt: "length (edge_indices_tgt g) = length (edge_indices_src g)"
    and fw: "list_all (\<lambda>(e, p). map_of ?m p = Some e) (zip [0..<?n] ?ps)"
    and bw: "list_all (\<lambda>(p, e). e < ?n \<and> (edge_indices_src g ! e, edge_indices_tgt g ! e) = p) ?m"
    by blast+
  have n: "?n = length (edge_indices_src g)"
    by (simp add: get_edge_num_def)
  have upd: "AList.update (s, t) ?n ?m = ?m @ [((s, t), ?n)]"
    using fresh by (rule update_fresh)
  have n': "get_edge_num g' = Suc ?n"
    by (simp add: g' get_edge_num_def)
  have a1: "length (nids_eid_mapping g') = get_edge_num g'"
    unfolding n' by (simp add: g' upd len)
  have a2: "distinct (map fst (nids_eid_mapping g'))"
    using dist fresh by (simp add: g' upd)
  have a3: "length (edge_indices_tgt g') = length (edge_indices_src g')"
    by (simp add: g' lt)
  have gm: "nids_eid_mapping g' = ?m @ [((s, t), ?n)]"
    and gs: "edge_indices_src g' = edge_indices_src g @ [s]"
    and gt: "edge_indices_tgt g' = edge_indices_tgt g @ [t]"
    by (simp_all add: g' upd)
  have a4: "list_all (\<lambda>(e, p). map_of (nids_eid_mapping g') p = Some e)
       (zip [0..<get_edge_num g'] (zip (edge_indices_src g') (edge_indices_tgt g')))"
  proof -
    have old: "map_of (?m @ [((s, t), ?n)]) p = Some e"
      if "(e, p) \<in> set (zip [0..<?n] ?ps)" for e p
    proof -
      from that fw have "map_of ?m p = Some e"
        by (auto simp: list_all_iff)
      then show ?thesis by (simp add: map_add_Some_iff)
    qed
    have last: "map_of (?m @ [((s, t), ?n)]) (s, t) = Some ?n"
      using True by (simp add: map_add_Some_iff)
    have z: "zip [0..<Suc ?n] (zip (edge_indices_src g @ [s]) (edge_indices_tgt g @ [t]))
             = zip [0..<?n] ?ps @ [(?n, (s, t))]"
      using lt n by simp
    have "list_all (\<lambda>(e, p). map_of (?m @ [((s, t), ?n)]) p = Some e)
            (zip [0..<?n] ?ps @ [(?n, (s, t))])"
      using old last by (auto simp: list_all_iff)
    then show ?thesis
      by (simp only: n' gm gs gt z)
  qed
  have a5: "list_all (\<lambda>(p, e). e < get_edge_num g'
                \<and> (edge_indices_src g' ! e, edge_indices_tgt g' ! e) = p)
       (nids_eid_mapping g')"
  proof -
    have old: "e < Suc ?n \<and> ((edge_indices_src g @ [s]) ! e, (edge_indices_tgt g @ [t]) ! e) = p"
      if "(p, e) \<in> set ?m" for p e
    proof -
      from that bw have "e < ?n \<and> (edge_indices_src g ! e, edge_indices_tgt g ! e) = p"
        by (auto simp: list_all_iff)
      then show ?thesis using n lt by (auto simp: nth_append)
    qed
    have last: "?n < Suc ?n
        \<and> ((edge_indices_src g @ [s]) ! ?n, (edge_indices_tgt g @ [t]) ! ?n) = (s, t)"
      using n lt by (simp add: nth_append)
    have "list_all (\<lambda>(p, e). e < Suc ?n
              \<and> ((edge_indices_src g @ [s]) ! e, (edge_indices_tgt g @ [t]) ! e) = p)
            (?m @ [((s, t), ?n)])"
      using old last by (auto simp: list_all_iff)
    then show ?thesis
      by (simp only: n' gm gs gt)
  qed
  from a1 a2 a3 a4 a5 show ?thesis
    unfolding edge_index_consistent_def by blast
qed

lemma init_storage_index: "edge_index_consistent (init_storage dev)"
  by (simp add: edge_index_consistent_def init_storage_def get_edge_num_def)

text \<open>
  C2 (an endpoint outside \<open>[0, node_count)\<close> makes \<^verbatim>\<open>add_edge\<close> and \<^verbatim>\<open>add_edges\<close> fail with
  'Endpoint not in the graph' before any mutation). The code does not: on a graph of two
  nodes \<^verbatim>\<open>add_edge(5, 7)\<close> and \<^verbatim>\<open>add_edges([5], [7])\<close> raise nothing and store the edge.
\<close>

theorem out_of_range_endpoints_accepted:
  "add_edge two_nodes 5 7 =
     ([], Done (two_nodes\<lparr> nids_eid_mapping := [((5, 7), 0)],
                  edge_indices_src := [5], edge_indices_tgt := [7],
                  edge_attributes := [res_init_edge_attributes],
                  edge_features := res_init_edge_features \<rparr>))
   \<and> add_edges two_nodes (L [5]) (L [7]) = add_edge two_nodes 5 7"
  by (simp add: graph_eval)

text \<open>
  C7 (edge idempotence): for every graph and every pair \<open>(s, t)\<close> of nodes of the graph, the
  first \<^verbatim>\<open>add_edge(s, t)\<close> returns normally, and a second one returns normally with one
  warning for the pair and leaves the whole state as it was: the edge count and the edge id
  of \<open>(s, t)\<close> are the same before and after the second call.
\<close>

theorem add_edge_idempotent:
  assumes "0 \<le> s" "s < int (get_node_num g)" "0 \<le> t" "t < int (get_node_num g)"
  shows "\<exists>w g1 g2 eid.
           add_edge g s t = (w, Done g1) \<and> add_edge g1 s t = ([(s, t)], Done g2) \<and> g2 = g1
           \<and> get_edge_num g2 = get_edge_num g1
           \<and> edge_ids g1 (I s) (I t) = Inr [eid] \<and> edge_ids g2 (I s) (I t) = Inr [eid]"
proof (cases "map_of (nids_eid_mapping g) (s, t)")
  case None
  then show ?thesis using assms
    by (simp add: add_edge_def endpoint_check_fails_def get_node_num_def edge_ids_def
        check_and_expand_def update_conv')
next
  case (Some eid)
  then show ?thesis using assms
    by (simp add: add_edge_def endpoint_check_fails_def get_node_num_def edge_ids_def
        check_and_expand_def)
qed

theorem add_edge_idempotent_witness:
  "add_edge two_nodes 0 1 =
     ([], Done (two_nodes\<lparr> nids_eid_mapping := [((0, 1), 0)],
                  edge_indices_src := [0], edge_indices_tgt := [1],
                  edge_attributes := [res_init_edge_attributes],
                  edge_features := res_init_edge_features \<rparr>))
   \<and> (\<exists>w g1 g2 eid.
         add_edge two_nodes 0 1 = (w, Done g1) \<and> add_edge g1 0 1 = ([(0, 1)], Done g2) \<and> g2 = g1
         \<and> get_edge_num g2 = get_edge_num g1
         \<and> edge_ids g1 (I 0) (I 1) = Inr [eid] \<and> edge_ids g2 (I 0) (I 1) = Inr [eid])"
  using add_edge_idempotent [of 0 two_nodes 1]
  by (simp add: graph_eval)

subsection \<open>Growth of the feature tables\<close>

text \<open>
  C6 (growth padding): \<^verbatim>\<open>add_nodes(k)\<close> with \<open>k > 0\<close> appends to every present node feature
  \<open>k\<close> rows of zeros of its trailing shape, so that its leading length is the new node count
  when it was the old one before; a feature that is \<^verbatim>\<open>None\<close> stays \<^verbatim>\<open>None\<close> and no name is
  added. \<^verbatim>\<open>add_edge\<close> of a pair that is not in the graph appends one row of zeros to every
  present edge feature and leaves the absent ones absent.
\<close>

theorem growth_pads_present_features:
  assumes "0 < k" and "map_of (nids_eid_mapping g) (s, t) = None"
  shows "\<exists>g1 g2. add_nodes g k = Done g1 \<and> get_node_num g1 = get_node_num g + nat k
      \<and> (\<forall>f x. map_of (node_features g) f = Some (Some x) \<longrightarrow>
            map_of (node_features g1) f =
              Some (Some (Tensor (trailing x)
                            (rows x @ replicate (nat k) (replicate (prod_list (trailing x)) 0))))
            \<and> (shape0 x = get_node_num g \<longrightarrow>
                 length (rows x @ replicate (nat k) (replicate (prod_list (trailing x)) (0::'a::zero)))
                   = get_node_num g1))
      \<and> (\<forall>f. map_of (node_features g) f = Some None \<longrightarrow> map_of (node_features g1) f = Some None)
      \<and> (\<forall>f. map_of (node_features g) f = None \<longrightarrow> map_of (node_features g1) f = None)
      \<and> add_edge g s t = ([], Done g2) \<and> get_edge_num g2 = get_edge_num g + 1
      \<and> (\<forall>f x. map_of (edge_features g) f = Some (Some x) \<longrightarrow>
            map_of (edge_features g2) f =
              Some (Some (Tensor (trailing x) (rows x @ [replicate (prod_list (trailing x)) 0]))))
      \<and> (\<forall>f. map_of (edge_features g) f = Some None \<longrightarrow> map_of (edge_features g2) f = Some None)"
  using assms
  by (simp add: add_nodes_def add_edge_def endpoint_check_fails_def get_node_num_def
      get_edge_num_def map_of_pad_features zero_rows_def shape0_def)

theorem growth_pads_present_features_witness:
  "add_nodes two_nodes_feat 1 =
     Done (two_nodes_feat\<lparr>
       node_attributes := [res_init_node_attr, res_init_node_attr, res_init_node_attr],
       node_features := [(''node_feat'', Some (Tensor [1] [[1], [2], [0]])), (''node_emb'', None)]\<rparr>)
   \<and> fst (add_edge two_nodes_feat 0 1) = []"
  using growth_pads_present_features [of 1 two_nodes_feat 0 1]
  by (simp add: two_nodes_feat_def graph_eval add_nodes_def zero_rows_def)

subsection \<open>Feature writes\<close>

text \<open>
  A write of one array to a present feature raises the assertion of lines 208 and 483
  whenever the leading length of the array is not the number of all nodes (edges), whatever
  the selector is.
\<close>

lemma present_node_feature_write:
  "map_of (node_features g) key = Some (Some old) \<Longrightarrow> shape0 val \<noteq> get_node_num g \<Longrightarrow>
   set_node_features setitem g sel [(key, val)] = Raise AssertionError g"
  by (simp add: set_node_features_def is_new_feature_def)

lemma present_edge_feature_write:
  "map_of (edge_features g) key = Some (Some old) \<Longrightarrow> shape0 val \<noteq> get_edge_num g \<Longrightarrow>
   set_edge_feature setitem g sel [(key, val)] = Raise AssertionError g"
  by (simp add: set_edge_feature_def is_new_feature_def)

text \<open>
  C5 (a write to a present feature through a selector of a strict subset succeeds exactly
  when the array has as many rows as the selector picks, and fails with
  SizeMismatchException otherwise). The code does not: the assertion of lines 208 and 483
  compares the leading length of the array with the number of all nodes (edges), and it comes
  before the in-place write of lines 221 and 495. On \<open>two_edges\<close>, a one-row array written
  to \<open>node_feat\<close> at the slice \<open>0:1\<close> or at the node 0, and to \<open>edge_weight\<close> at the edge
  list \<open>[1]\<close>, raises an AssertionError and nothing is written; an array of three rows
  raises the same AssertionError, where the docstrings name SizeMismatchException.
\<close>

theorem subset_write_fails_assertion:
  "get_node_num two_edges = 2
   \<and> map_of (node_features two_edges) ''node_feat'' = Some (Some (Tensor [1] [[1], [2]]))
   \<and> select_ids (Slice (Some 0) (Some 1) None) 2 = Inr [0]
   \<and> shape0 (Tensor [1] [[7::int]]) = 1
   \<and> set_node_features exact_setitem two_edges (Slice (Some 0) (Some 1) None)
        [(''node_feat'', Tensor [1] [[7]])] = Raise AssertionError two_edges
   \<and> set_node_features exact_setitem two_edges (Idx 0)
        [(''node_feat'', Tensor [1] [[7]])] = Raise AssertionError two_edges
   \<and> set_node_features exact_setitem two_edges (Slice (Some 0) (Some 1) None)
        [(''node_feat'', Tensor [1] [[7], [8], [9]])] = Raise AssertionError two_edges
   \<and> get_edge_num two_edges = 2
   \<and> map_of (edge_features two_edges) ''edge_weight'' = Some (Some (Tensor [] [[5], [6]]))
   \<and> set_edge_feature exact_setitem two_edges (IdxList [1])
        [(''edge_weight'', Tensor [] [[7]])] = Raise AssertionError two_edges
   \<and> set_edge_feature exact_setitem two_edges (IdxList [1])
        [(''edge_weight'', Tensor [] [[7], [8], [9]])] = Raise AssertionError two_edges"
  by (simp add: set_node_features_def set_edge_feature_def is_new_feature_def two_edges_def
      two_nodes_feat_def graph_eval shape0_def py_range_def clamp_bound_def select_ids_def)





subsection \<open>The default feature names\<close>

lemma read_features_absent:
  "read_features getitem fs sel keys ret = Inr d \<Longrightarrow> map_of fs k = Some None \<Longrightarrow>
   k \<in> set keys \<or> map_of ret k = Some None \<Longrightarrow> map_of d k = Some None"
proof (induction keys arbitrary: ret)
  case Nil
  then show ?case by simp
next
  case (Cons key keys)
  show ?case
  proof (cases "key = k")
    case True
    with Cons.prems have "read_features getitem fs sel keys (AList.update k None ret) = Inr d"
      by simp
    then show ?thesis
      using Cons.prems(2) by (rule Cons.IH) (simp add: update_conv')
  next
    case False
    from Cons.prems(1) obtain v where
      r: "read_features getitem fs sel keys (AList.update key v ret) = Inr d"
      by (auto split: option.splits sum.splits)
    from False Cons.prems(3) have "k \<in> set keys \<or> map_of (AList.update key v ret) k = Some None"
      by (auto simp: update_conv')
    with r Cons.prems(2) show ?thesis by (rule Cons.IH)
  qed
qed

lemma node_modification_other:
  "node_modification setitem g sel new_data = Done g' \<Longrightarrow> k \<notin> fst ` set new_data \<Longrightarrow>
   map_of (node_features g') k = map_of (node_features g) k"
proof (induction new_data arbitrary: g)
  case Nil
  then show ?case by simp
next
  case (Cons kv rest)
  obtain key val where kv: "kv = (key, val)" by (cases kv)
  from Cons.prems kv obtain x where
    r: "node_modification setitem (g\<lparr>node_features := AList.update key (Some x) (node_features g)\<rparr>)
          sel rest = Done g'"
    by (auto split: if_splits option.splits sum.splits)
  from Cons.prems(2) kv have "k \<noteq> key" "k \<notin> fst ` set rest" by auto
  with Cons.IH [OF r] show ?case by (simp add: update_conv')
qed

lemma edge_modification_other:
  "edge_modification setitem g sel new_data = Done g' \<Longrightarrow> k \<notin> fst ` set new_data \<Longrightarrow>
   map_of (edge_features g') k = map_of (edge_features g) k"
proof (induction new_data arbitrary: g)
  case Nil
  then show ?case by simp
next
  case (Cons kv rest)
  obtain key val where kv: "kv = (key, val)" by (cases kv)
  from Cons.prems kv obtain x where
    r: "edge_modification setitem (g\<lparr>edge_features := AList.update key (Some x) (edge_features g)\<rparr>)
          sel rest = Done g'"
    by (auto split: if_splits option.splits sum.splits)
  from Cons.prems(2) kv have "k \<noteq> key" "k \<notin> fst ` set rest" by auto
  with Cons.IH [OF r] show ?case by (simp add: update_conv')
qed

lemma node_modification_written:
  "node_modification setitem g sel new_data = Done g' \<Longrightarrow>
   k \<in> fst ` set new_data \<or> (\<exists>t. map_of (node_features g) k = Some (Some t)) \<Longrightarrow>
   \<exists>t. map_of (node_features g') k = Some (Some t)"
proof (induction new_data arbitrary: g)
  case Nil
  then show ?case by simp
next
  case (Cons kv rest)
  obtain key val where kv: "kv = (key, val)" by (cases kv)
  from Cons.prems(1) kv obtain x where
    r: "node_modification setitem (g\<lparr>node_features := AList.update key (Some x) (node_features g)\<rparr>)
          sel rest = Done g'"
    by (auto split: if_splits option.splits sum.splits)
  from Cons.prems(2) kv
  have "k \<in> fst ` set rest
        \<or> (\<exists>t. map_of (node_features
                   (g\<lparr>node_features := AList.update key (Some x) (node_features g)\<rparr>)) k
                 = Some (Some t))"
    by (auto simp: update_conv')
  with r show ?case by (rule Cons.IH)
qed

lemma edge_modification_written:
  "edge_modification setitem g sel new_data = Done g' \<Longrightarrow>
   k \<in> fst ` set new_data \<or> (\<exists>t. map_of (edge_features g) k = Some (Some t)) \<Longrightarrow>
   \<exists>t. map_of (edge_features g') k = Some (Some t)"
proof (induction new_data arbitrary: g)
  case Nil
  then show ?case by simp
next
  case (Cons kv rest)
  obtain key val where kv: "kv = (key, val)" by (cases kv)
  from Cons.prems(1) kv obtain x where
    r: "edge_modification setitem (g\<lparr>edge_features := AList.update key (Some x) (edge_features g)\<rparr>)
          sel rest = Done g'"
    by (auto split: if_splits option.splits sum.splits)
  from Cons.prems(2) kv
  have "k \<in> fst ` set rest
        \<or> (\<exists>t. map_of (edge_features
                   (g\<lparr>edge_features := AList.update key (Some x) (edge_features g)\<rparr>)) k
                 = Some (Some t))"
    by (auto simp: update_conv')
  with r show ?case by (rule Cons.IH)
qed

lemma fold_update_map_of:
  "distinct (map fst xs) \<Longrightarrow>
   map_of (fold (\<lambda>(k, v). AList.update k v) xs fs) = map_of fs ++ map_of xs"
proof (induction xs arbitrary: fs)
  case Nil
  then show ?case by simp
next
  case (Cons x xs)
  obtain k v where x: "x = (k, v)" by (cases x)
  from Cons.prems x have d: "distinct (map fst xs)" and k: "k \<notin> dom (map_of xs)"
    by (auto simp: dom_map_of_conv_image_fst)
  have "map_of (fold (\<lambda>(k, v). AList.update k v) (x # xs) fs)
          = map_of (AList.update k v fs) ++ map_of xs"
    using Cons.IH [OF d] by (simp add: x)
  also have "\<dots> = (map_of fs)(k \<mapsto> v) ++ map_of xs"
    by (simp add: update_conv')
  also have "\<dots> = map_of fs ++ (map_of xs)(k \<mapsto> v)"
    using k by (auto simp: map_add_def fun_eq_iff split: option.splits)
  finally show ?case by (simp only: x map_of.simps fst_conv snd_conv)
qed

lemma fold_update_keys:
  "set (map fst fs) \<subseteq> set (map fst (fold (\<lambda>(k, v). AList.update k v) xs fs))"
proof (induction xs arbitrary: fs)
  case Nil
  then show ?case by simp
next
  case (Cons x xs)
  obtain k v where x: "x = (k, v)" by (cases x)
  have "set (map fst fs) \<subseteq> set (map fst (AList.update k v fs))"
    by (auto simp: dom_update)
  also have "\<dots> \<subseteq> set (map fst (fold (\<lambda>(k, v). AList.update k v) xs (AList.update k v fs)))"
    by (rule Cons.IH)
  finally show ?case by (simp add: x)
qed

lemma add_edges_node_features:
  "snd (add_edges g s t) = Done g' \<Longrightarrow> node_features g' = node_features g"
  by (auto simp: add_edges_def Let_def split: sum.splits prod.splits if_splits)

lemma add_edges_edge_names:
  "snd (add_edges g s t) = Done g' \<Longrightarrow> map fst (edge_features g') = map fst (edge_features g)"
  by (auto simp: add_edges_def Let_def pad_features_def comp_def split_beta
      split: sum.splits prod.splits if_splits)

lemma copy_registers_defaults:
  fixes src g :: "('a::zero, 'v) graph"
  assumes "GraphData_init (Some src) dev = Inr g"
  shows "set [''node_feat'', ''node_emb''] \<subseteq> set (node_feature_names g)
       \<and> set [''edge_feat'', ''edge_emb'', ''edge_weight''] \<subseteq> set (get_edge_feature_names g)"
proof -
  from assms obtain g1 g2 where
    g1: "add_nodes (init_storage dev :: ('a, 'v) graph) (int (get_node_num src)) = Done g1"
    and g2: "snd (add_edges g1 (L (edge_indices_src src)) (L (edge_indices_tgt src))) = Done g2"
    and nf: "node_features g =
        fold (\<lambda>(k, v). AList.update k v) (node_features src) (node_features g2)"
    and ef: "edge_features g =
        fold (\<lambda>(k, v). AList.update k v) (edge_features src) (edge_features g2)"
    by (auto simp: GraphData_init_def from_graphdata_def Let_def commit_Done_iff to_device_def
        copy_batch_info_def split: outcome.splits if_splits)
  from g1 have "map fst (node_features g1) = [''node_feat'', ''node_emb'']"
    "map fst (edge_features g1) = [''edge_feat'', ''edge_emb'', ''edge_weight'']"
    by (auto simp: add_nodes_def init_storage_def pad_features_def res_init_node_features_def
        res_init_edge_features_def split: if_splits)
  with add_edges_node_features [OF g2] add_edges_edge_names [OF g2]
  have "map fst (node_features g2) = [''node_feat'', ''node_emb'']"
    "map fst (edge_features g2) = [''edge_feat'', ''edge_emb'', ''edge_weight'']"
    by simp_all
  with fold_update_keys [of "node_features g2" "node_features src"]
    fold_update_keys [of "edge_features g2" "edge_features src"]
  show ?thesis
    unfolding node_feature_names_def get_edge_feature_names_def nf ef by simp
qed

lemma copy_tables:
  fixes src g :: "('a::zero, 'v) graph"
  assumes "GraphData_init (Some src) dev = Inr g"
  shows "node_features g =
           fold (\<lambda>(k, v). AList.update k v) (node_features src) res_init_node_features"
    and "edge_features g =
           fold (\<lambda>(k, v). AList.update k v) (edge_features src) res_init_edge_features"
proof -
  from assms obtain g1 g2 where
    g1: "add_nodes (init_storage dev :: ('a, 'v) graph) (int (get_node_num src)) = Done g1"
    and g2: "snd (add_edges g1 (L (edge_indices_src src)) (L (edge_indices_tgt src))) = Done g2"
    and nf: "node_features g =
        fold (\<lambda>(k, v). AList.update k v) (node_features src) (node_features g2)"
    and ef: "edge_features g =
        fold (\<lambda>(k, v). AList.update k v) (edge_features src) (edge_features g2)"
    by (auto simp: GraphData_init_def from_graphdata_def Let_def commit_Done_iff to_device_def
        copy_batch_info_def split: outcome.splits if_splits)
  from g1 have n1: "node_features g1 = res_init_node_features"
    and e1: "edge_features g1 = res_init_edge_features"
    by (auto simp: add_nodes_def init_storage_def pad_features_def res_init_node_features_def
        split: if_splits)
  from g2 e1 have "edge_features g2 = res_init_edge_features"
    by (auto simp: add_edges_def Let_def pad_features_def res_init_edge_features_def
        split: sum.splits prod.splits if_splits)
  with add_edges_node_features [OF g2] n1 nf ef
  show "node_features g =
           fold (\<lambda>(k, v). AList.update k v) (node_features src) res_init_node_features"
    and "edge_features g =
           fold (\<lambda>(k, v). AList.update k v) (edge_features src) res_init_edge_features"
    by simp_all
qed

text \<open>
  C10, as amended. The graph that \<^verbatim>\<open>GraphData()\<close> constructs registers \<open>node_feat\<close> and
  \<open>node_emb\<close> in its node table and \<open>edge_feat\<close>, \<open>edge_emb\<close> and \<open>edge_weight\<close> in its edge
  table, all \<^verbatim>\<open>None\<close>; reading its features gives these names with \<^verbatim>\<open>None\<close>, and the
  enumerations of the feature names list them. On any graph, a name that is registered with
  \<^verbatim>\<open>None\<close> is listed, and read as \<^verbatim>\<open>None\<close> by every read that returns; it stays registered
  with \<^verbatim>\<open>None\<close> through \<^verbatim>\<open>add_nodes\<close>, \<^verbatim>\<open>add_edge\<close>, \<^verbatim>\<open>add_edges\<close> and every write of
  \<^verbatim>\<open>set_node_features\<close> and \<^verbatim>\<open>set_edge_feature\<close> to other names, and a write that returns
  leaves the names it wrote present. A copy \<^verbatim>\<open>GraphData(src)\<close> registers the five names
  too, and holds for every name what the source holds, \<^verbatim>\<open>None\<close> for a default name that
  the source does not have.
\<close>

theorem default_features_registered:
  fixes getitem :: "'a::zero tensor \<Rightarrow> selector \<Rightarrow> error + 'b"
    and setitem :: "'a tensor \<Rightarrow> selector \<Rightarrow> 'a tensor \<Rightarrow> error + 'a tensor"
    and g0 :: "('a, 'v) graph"
  assumes "GraphData_init None dev = Inr g0"
  shows "node_features g0 = [(''node_feat'', None), (''node_emb'', None)]
   \<and> edge_features g0 = [(''edge_feat'', None), (''edge_emb'', None), (''edge_weight'', None)]
   \<and> get_node_features getitem g0 sel = Inr [(''node_feat'', None), (''node_emb'', None)]
   \<and> get_edge_feature getitem g0 sel =
       Inr [(''edge_feat'', None), (''edge_emb'', None), (''edge_weight'', None)]
   \<and> node_feature_names g0 = [''node_feat'', ''node_emb'']
   \<and> get_edge_feature_names g0 = [''edge_feat'', ''edge_emb'', ''edge_weight'']
   \<and> (\<forall>(g :: ('a, 'v) graph) k d.
          map_of (node_features g) k = Some None \<and> get_node_features getitem g sel = Inr d
          \<longrightarrow> map_of d k = Some None \<and> k \<in> set (node_feature_names g))
   \<and> (\<forall>(g :: ('a, 'v) graph) k d.
          map_of (edge_features g) k = Some None \<and> get_edge_feature getitem g sel = Inr d
          \<longrightarrow> map_of d k = Some None \<and> k \<in> set (get_edge_feature_names g))
   \<and> (\<forall>(g :: ('a, 'v) graph) k n g'.
          map_of (node_features g) k = Some None \<and> add_nodes g n = Done g'
          \<longrightarrow> map_of (node_features g') k = Some None)
   \<and> (\<forall>(g :: ('a, 'v) graph) k s t g'.
          map_of (edge_features g) k = Some None \<and> snd (add_edge g s t) = Done g'
          \<longrightarrow> map_of (edge_features g') k = Some None)
   \<and> (\<forall>(g :: ('a, 'v) graph) k s t g'.
          map_of (edge_features g) k = Some None \<and> snd (add_edges g s t) = Done g'
          \<longrightarrow> map_of (edge_features g') k = Some None)
   \<and> (\<forall>(g :: ('a, 'v) graph) k nodes new_data g'.
          map_of (node_features g) k = Some None \<and> k \<notin> fst ` set new_data
          \<and> set_node_features setitem g nodes new_data = Done g'
          \<longrightarrow> map_of (node_features g') k = Some None)
   \<and> (\<forall>(g :: ('a, 'v) graph) k edges new_data g'.
          map_of (edge_features g) k = Some None \<and> k \<notin> fst ` set new_data
          \<and> set_edge_feature setitem g edges new_data = Done g'
          \<longrightarrow> map_of (edge_features g') k = Some None)
   \<and> (\<forall>(g :: ('a, 'v) graph) k nodes new_data g'.
          k \<in> fst ` set new_data \<and> set_node_features setitem g nodes new_data = Done g'
          \<longrightarrow> (\<exists>t. map_of (node_features g') k = Some (Some t)))
   \<and> (\<forall>(g :: ('a, 'v) graph) k edges new_data g'.
          k \<in> fst ` set new_data \<and> set_edge_feature setitem g edges new_data = Done g'
          \<longrightarrow> (\<exists>t. map_of (edge_features g') k = Some (Some t)))
   \<and> (\<forall>(src :: ('a, 'v) graph) dev' g.
          GraphData_init (Some src) dev' = Inr g
          \<longrightarrow> set [''node_feat'', ''node_emb''] \<subseteq> set (node_feature_names g)
            \<and> set [''edge_feat'', ''edge_emb'', ''edge_weight'']
                  \<subseteq> set (get_edge_feature_names g))
   \<and> (\<forall>(src :: ('a, 'v) graph) dev' g.
          GraphData_init (Some src) dev' = Inr g
          \<and> distinct (map fst (node_features src)) \<and> distinct (map fst (edge_features src))
          \<longrightarrow> (\<forall>k. map_of (node_features g) k =
                     (case map_of (node_features src) k of
                        None \<Rightarrow> map_of res_init_node_features k | Some v \<Rightarrow> Some v))
            \<and> (\<forall>k. map_of (edge_features g) k =
                     (case map_of (edge_features src) k of
                        None \<Rightarrow> map_of res_init_edge_features k | Some v \<Rightarrow> Some v)))"
proof -
  have g0: "g0 = init_storage dev"
    using assms by (simp add: GraphData_init_def)
  have fresh:
    "node_features g0 = [(''node_feat'', None), (''node_emb'', None)]"
    "edge_features g0 = [(''edge_feat'', None), (''edge_emb'', None), (''edge_weight'', None)]"
    "node_feature_names g0 = [''node_feat'', ''node_emb'']"
    "get_edge_feature_names g0 = [''edge_feat'', ''edge_emb'', ''edge_weight'']"
    by (simp_all add: g0 init_storage_def res_init_node_features_def
        res_init_edge_features_def node_feature_names_def get_edge_feature_names_def)
  have rd: "get_node_features getitem g0 sel = Inr [(''node_feat'', None), (''node_emb'', None)]"
    "get_edge_feature getitem g0 sel =
       Inr [(''edge_feat'', None), (''edge_emb'', None), (''edge_weight'', None)]"
    by (simp_all add: get_node_features_def get_edge_feature_def fresh)
  have any_n: "map_of d k = Some None \<and> k \<in> set (node_feature_names g)"
    if "map_of (node_features g) k = Some None" "get_node_features getitem g sel = Inr d"
    for g :: "('a, 'v) graph" and k d
  proof -
    from that(1) have "k \<in> set (map fst (node_features g))"
      by (metis map_of_eq_None_iff option.distinct(1) set_map)
    with that show ?thesis
      unfolding get_node_features_def node_feature_names_def
      using read_features_absent [of getitem "node_features g" sel "map fst (node_features g)" "[]" d k]
      by blast
  qed
  have any_e: "map_of d k = Some None \<and> k \<in> set (get_edge_feature_names g)"
    if "map_of (edge_features g) k = Some None" "get_edge_feature getitem g sel = Inr d"
    for g :: "('a, 'v) graph" and k d
  proof -
    from that(1) have "k \<in> set (map fst (edge_features g))"
      by (metis map_of_eq_None_iff option.distinct(1) set_map)
    with that show ?thesis
      unfolding get_edge_feature_def get_edge_feature_names_def
      using read_features_absent [of getitem "edge_features g" sel "map fst (edge_features g)" "[]" d k]
      by blast
  qed
  have grow_n: "map_of (node_features g') k = Some None"
    if "map_of (node_features g) k = Some None" "add_nodes g n = Done g'"
    for g g' :: "('a, 'v) graph" and k n
    using that by (auto simp: add_nodes_def map_of_pad_features split: if_splits)
  have grow_e: "map_of (edge_features g') k = Some None"
    if "map_of (edge_features g) k = Some None" "snd (add_edge g s t) = Done g'"
    for g g' :: "('a, 'v) graph" and k s t
    using that by (auto simp: add_edge_def map_of_pad_features split: if_splits)
  have grow_es: "map_of (edge_features g') k = Some None"
    if "map_of (edge_features g) k = Some None" "snd (add_edges g s t) = Done g'"
    for g g' :: "('a, 'v) graph" and k s t
    using that
    by (auto simp: add_edges_def Let_def map_of_pad_features split: if_splits sum.splits prod.splits)
  have wr: "map_of (node_features g') k = Some None"
    if "map_of (node_features g) k = Some None" "k \<notin> fst ` set new_data"
      "set_node_features setitem g nodes new_data = Done g'"
    for g g' :: "('a, 'v) graph" and k nodes new_data
    using that node_modification_other [of setitem g nodes new_data g' k]
    by (auto simp: set_node_features_def split: option.splits)
  have c7: "\<forall>(g :: ('a, 'v) graph) k d.
          map_of (node_features g) k = Some None \<and> get_node_features getitem g sel = Inr d
          \<longrightarrow> map_of d k = Some None \<and> k \<in> set (node_feature_names g)"
    using any_n by blast
  have c8: "\<forall>(g :: ('a, 'v) graph) k d.
          map_of (edge_features g) k = Some None \<and> get_edge_feature getitem g sel = Inr d
          \<longrightarrow> map_of d k = Some None \<and> k \<in> set (get_edge_feature_names g)"
    using any_e by blast
  have c9: "\<forall>(g :: ('a, 'v) graph) k n g'.
          map_of (node_features g) k = Some None \<and> add_nodes g n = Done g'
          \<longrightarrow> map_of (node_features g') k = Some None"
    using grow_n by blast
  have c10: "\<forall>(g :: ('a, 'v) graph) k s t g'.
          map_of (edge_features g) k = Some None \<and> snd (add_edge g s t) = Done g'
          \<longrightarrow> map_of (edge_features g') k = Some None"
    using grow_e by blast
  have c11: "\<forall>(g :: ('a, 'v) graph) k s t g'.
          map_of (edge_features g) k = Some None \<and> snd (add_edges g s t) = Done g'
          \<longrightarrow> map_of (edge_features g') k = Some None"
    using grow_es by blast
  have c12: "\<forall>(g :: ('a, 'v) graph) k nodes new_data g'.
          map_of (node_features g) k = Some None \<and> k \<notin> fst ` set new_data
          \<and> set_node_features setitem g nodes new_data = Done g'
          \<longrightarrow> map_of (node_features g') k = Some None"
    using wr by blast
  have c13: "\<forall>(src :: ('a, 'v) graph) dev' g.
          GraphData_init (Some src) dev' = Inr g
          \<longrightarrow> set [''node_feat'', ''node_emb''] \<subseteq> set (node_feature_names g)
            \<and> set [''edge_feat'', ''edge_emb'', ''edge_weight'']
                  \<subseteq> set (get_edge_feature_names g)"
    using copy_registers_defaults by blast
  have c12e: "\<forall>(g :: ('a, 'v) graph) k edges new_data g'.
          map_of (edge_features g) k = Some None \<and> k \<notin> fst ` set new_data
          \<and> set_edge_feature setitem g edges new_data = Done g'
          \<longrightarrow> map_of (edge_features g') k = Some None"
  proof (intro allI impI)
    fix g g' :: "('a, 'v) graph" and k edges new_data
    assume a: "map_of (edge_features g) k = Some None \<and> k \<notin> fst ` set new_data
          \<and> set_edge_feature setitem g edges new_data = Done g'"
    then have "edge_modification setitem g edges new_data = Done g'"
      by (auto simp: set_edge_feature_def split: option.splits)
    from edge_modification_other [OF this, of k] a
    show "map_of (edge_features g') k = Some None" by simp
  qed
  have wn: "\<forall>(g :: ('a, 'v) graph) k nodes new_data g'.
          k \<in> fst ` set new_data \<and> set_node_features setitem g nodes new_data = Done g'
          \<longrightarrow> (\<exists>t. map_of (node_features g') k = Some (Some t))"
  proof (intro allI impI)
    fix g g' :: "('a, 'v) graph" and k nodes new_data
    assume a: "k \<in> fst ` set new_data \<and> set_node_features setitem g nodes new_data = Done g'"
    then have "node_modification setitem g nodes new_data = Done g'"
      by (auto simp: set_node_features_def split: option.splits)
    from node_modification_written [OF this, of k] a
    show "\<exists>t. map_of (node_features g') k = Some (Some t)" by blast
  qed
  have we: "\<forall>(g :: ('a, 'v) graph) k edges new_data g'.
          k \<in> fst ` set new_data \<and> set_edge_feature setitem g edges new_data = Done g'
          \<longrightarrow> (\<exists>t. map_of (edge_features g') k = Some (Some t))"
  proof (intro allI impI)
    fix g g' :: "('a, 'v) graph" and k edges new_data
    assume a: "k \<in> fst ` set new_data \<and> set_edge_feature setitem g edges new_data = Done g'"
    then have "edge_modification setitem g edges new_data = Done g'"
      by (auto simp: set_edge_feature_def split: option.splits)
    from edge_modification_written [OF this, of k] a
    show "\<exists>t. map_of (edge_features g') k = Some (Some t)" by blast
  qed
  have c14: "\<forall>(src :: ('a, 'v) graph) dev' g.
          GraphData_init (Some src) dev' = Inr g
          \<and> distinct (map fst (node_features src)) \<and> distinct (map fst (edge_features src))
          \<longrightarrow> (\<forall>k. map_of (node_features g) k =
                     (case map_of (node_features src) k of
                        None \<Rightarrow> map_of res_init_node_features k | Some v \<Rightarrow> Some v))
            \<and> (\<forall>k. map_of (edge_features g) k =
                     (case map_of (edge_features src) k of
                        None \<Rightarrow> map_of res_init_edge_features k | Some v \<Rightarrow> Some v))"
  proof (intro allI impI)
    fix src g :: "('a, 'v) graph" and dev'
    assume a: "GraphData_init (Some src) dev' = Inr g
          \<and> distinct (map fst (node_features src)) \<and> distinct (map fst (edge_features src))"
    then have i: "GraphData_init (Some src) dev' = Inr g"
      and dn: "distinct (map fst (node_features src))"
      and de: "distinct (map fst (edge_features src))"
      by simp_all
    show "(\<forall>k. map_of (node_features g) k =
                     (case map_of (node_features src) k of
                        None \<Rightarrow> map_of res_init_node_features k | Some v \<Rightarrow> Some v))
            \<and> (\<forall>k. map_of (edge_features g) k =
                     (case map_of (edge_features src) k of
                        None \<Rightarrow> map_of res_init_edge_features k | Some v \<Rightarrow> Some v))"
      unfolding copy_tables [OF i] fold_update_map_of [OF dn] fold_update_map_of [OF de]
      by (simp add: map_add_def)
  qed
  show ?thesis
    by (intro conjI) (fact fresh rd c7 c8 c9 c10 c11 c12 c12e wn we c13 c14)+
qed

text \<open>
  The claim as stated fails for a copy: \<^verbatim>\<open>GraphData(two_edges)\<close> is a newly constructed
  graph, and it holds the arrays of \<open>two_edges\<close> under \<open>node_feat\<close> and \<open>edge_weight\<close>, not
  \<^verbatim>\<open>None\<close>.
\<close>

theorem copy_holds_source_features_counterexample:
  "GraphData_init (Some two_edges) None = Inr two_edges
   \<and> map_of (node_features two_edges) ''node_feat'' = Some (Some (Tensor [1] [[1], [2]]))
   \<and> map_of (edge_features two_edges) ''edge_weight'' = Some (Some (Tensor [] [[5], [6]]))
   \<and> get_node_features select_rows two_edges (Slice None None None)
       = Inr [(''node_feat'', Some [[1], [2]]), (''node_emb'', None)]"
  by (simp add: GraphData_init_def from_graphdata_def to_device_def two_edges_def
      two_nodes_feat_def graph_eval add_nodes_def get_node_features_def select_rows_def
      select_ids_def shape0_def py_range_def Let_def upt_rec numeral_2_eq_2)

theorem default_features_registered_witness:
  "GraphData_init None None = Inr (init_storage None :: (int, int) graph)
   \<and> get_node_features select_rows (init_storage None :: (int, int) graph) (Idx 5)
       = Inr [(''node_feat'', None), (''node_emb'', None)]
   \<and> get_edge_feature_names (init_storage None :: (int, int) graph)
       = [''edge_feat'', ''edge_emb'', ''edge_weight'']
   \<and> set_edge_feature exact_setitem two_edges (Slice None None None)
        [(''edge_weight'', Tensor [] [[8], [9]])]
       = Done (two_edges\<lparr>edge_features :=
           [(''edge_feat'', None), (''edge_emb'', None),
            (''edge_weight'', Some (Tensor [] [[8], [9]]))]\<rparr>)
   \<and> map_of (edge_features (two_edges\<lparr>edge_features :=
           [(''edge_feat'', None), (''edge_emb'', None),
            (''edge_weight'', Some (Tensor [] [[8], [9]]))]\<rparr>)) ''edge_emb'' = Some None
   \<and> GraphData_init (Some two_edges) None = Inr two_edges
   \<and> map_of (node_features two_edges) ''node_emb'' = Some None"
proof -
  have h: "GraphData_init None None = Inr (init_storage None :: (int, int) graph)"
    by (simp add: GraphData_init_def)
  note t = default_features_registered [OF h, of select_rows "Idx 5" exact_setitem]
  have w: "set_edge_feature exact_setitem two_edges (Slice None None None)
        [(''edge_weight'', Tensor [] [[8], [9]])]
       = Done (two_edges\<lparr>edge_features :=
           [(''edge_feat'', None), (''edge_emb'', None),
            (''edge_weight'', Some (Tensor [] [[8], [9]]))]\<rparr>)"
    by (simp add: set_edge_feature_def is_new_feature_def two_edges_def two_nodes_feat_def
        graph_eval shape0_def py_range_def)
  have e: "map_of (edge_features two_edges) ''edge_emb'' = Some None
           \<and> ''edge_emb'' \<notin> fst ` set [(''edge_weight'', Tensor [] [[8], [9::int]])]"
    by (simp add: two_edges_def)
  have c: "GraphData_init (Some two_edges) None = Inr two_edges
           \<and> distinct (map fst (node_features two_edges))
           \<and> distinct (map fst (edge_features two_edges))"
    by (simp add: GraphData_init_def from_graphdata_def to_device_def two_edges_def
        two_nodes_feat_def graph_eval add_nodes_def Let_def upt_rec numeral_2_eq_2)
  note t3 = t [THEN conjunct2, THEN conjunct2, THEN conjunct1]
  note t6 = t [THEN conjunct2, THEN conjunct2, THEN conjunct2, THEN conjunct2, THEN conjunct2, THEN conjunct1]
  note t13 = t [THEN conjunct2, THEN conjunct2, THEN conjunct2, THEN conjunct2, THEN conjunct2, THEN conjunct2, THEN conjunct2, THEN conjunct2, THEN conjunct2, THEN conjunct2, THEN conjunct2, THEN conjunct2, THEN conjunct1]
  note t17 = t [THEN conjunct2, THEN conjunct2, THEN conjunct2, THEN conjunct2, THEN conjunct2, THEN conjunct2, THEN conjunct2, THEN conjunct2, THEN conjunct2, THEN conjunct2, THEN conjunct2, THEN conjunct2, THEN conjunct2, THEN conjunct2, THEN conjunct2, THEN conjunct2]
  from t13 w e have a: "map_of (edge_features (two_edges\<lparr>edge_features :=
           [(''edge_feat'', None), (''edge_emb'', None),
            (''edge_weight'', Some (Tensor [] [[8], [9]]))]\<rparr>)) ''edge_emb'' = Some None"
    by blast
  from t17 c have "map_of (node_features two_edges) ''node_emb'' =
      (case map_of (node_features two_edges) ''node_emb'' of
         None \<Rightarrow> map_of res_init_node_features ''node_emb'' | Some v \<Rightarrow> Some v)"
    by blast
  then have b: "map_of (node_features two_edges) ''node_emb'' = Some None"
    by (simp add: two_edges_def two_nodes_feat_def)
  from c have c1: "GraphData_init (Some two_edges) None = Inr two_edges"
    by blast
  show ?thesis
    by (intro conjI) (fact h t3 t6 w a c1 b)+
qed

subsection \<open>Batching\<close>

text \<open>
  C4 (a feature that is present on some but not all graphs is dropped and \<^verbatim>\<open>to_batch\<close>
  still succeeds). The code skips a name only when one of the collected arrays is
  \<^verbatim>\<open>None\<close> (lines 795 and 834); a name that is not registered at all in one of the graphs
  contributes nothing to the list, the shorter concatenation is assigned, and the assertion
  of \<^verbatim>\<open>set_node_features\<close> fails: \<^verbatim>\<open>to_batch\<close> raises.
\<close>

theorem to_batch_fails_on_unregistered_feature:
  "to_batch exact_setitem [one_node_x, one_node] = Inl AssertionError"
  by (simp add: batch_eval graph_eval)


subsection \<open>The loops of to_batch and from_batch\<close>

lemma copy_records_ok:
  "d + k \<le> length dest \<Longrightarrow> s + k \<le> length items \<Longrightarrow>
   copy_records dest d items s k = Inr (take d dest @ take k (drop s items) @ drop (d + k) dest)"
proof (induction k arbitrary: dest d s)
  case 0
  then show ?case by simp
next
  case (Suc k)
  have "copy_records dest d items s (Suc k) =
          copy_records (dest[d := items ! s]) (Suc d) items (Suc s) k"
    using Suc.prems by simp
  also have "\<dots> = Inr (take (Suc d) (dest[d := items ! s]) @ take k (drop (Suc s) items)
                        @ drop (Suc d + k) (dest[d := items ! s]))"
    using Suc.prems by (intro Suc.IH) simp_all
  also have "take (Suc d) (dest[d := items ! s]) = take d dest @ [items ! s]"
    using Suc.prems by (simp add: take_Suc_conv_app_nth)
  also have "drop (Suc d + k) (dest[d := items ! s]) = drop (d + Suc k) dest"
    by simp
  also have "(take d dest @ [items ! s]) @ take k (drop (Suc s) items) @ drop (d + Suc k) dest
     = take d dest @ take (Suc k) (drop s items) @ drop (d + Suc k) dest"
    using Suc.prems by (simp add: Cons_nth_drop_Suc [symmetric])
  finally show ?case .
qed

lemma copy_attributes_ok:
  "\<forall>g\<in>set gs. num g = length (attrs g) \<Longrightarrow> c + sum_list (map num gs) \<le> length dest \<Longrightarrow>
   copy_attributes attrs num dest c gs =
     Inr (take c dest @ concat (map attrs gs) @ drop (c + sum_list (map num gs)) dest)"
proof (induction gs arbitrary: dest c)
  case Nil
  then show ?case by simp
next
  case (Cons g gs)
  have r: "copy_records dest c (attrs g) 0 (num g)
        = Inr (take c dest @ attrs g @ drop (c + num g) dest)"
    using Cons.prems by (subst copy_records_ok) simp_all
  let ?d = "take c dest @ attrs g @ drop (c + num g) dest"
  have len: "length ?d = length dest" using Cons.prems by simp
  have "copy_attributes attrs num ?d (c + num g) gs =
     Inr (take (c + num g) ?d @ concat (map attrs gs)
            @ drop (c + num g + sum_list (map num gs)) ?d)"
    using Cons.prems len by (intro Cons.IH) simp_all
  moreover have "take (c + num g) ?d = take c dest @ attrs g"
    using Cons.prems by simp
  moreover have "drop (c + num g + sum_list (map num gs)) ?d
       = drop (c + sum_list (map num (g # gs))) dest"
    using Cons.prems by (simp add: ac_simps)
  ultimately show ?case using r by simp
qed

lemma scan_no_duplicates:
  "distinct ps \<Longrightarrow> \<forall>p\<in>set ps. map_of m p = None \<Longrightarrow>
   snd (fold (scan_step c) (zip is ps) (m, d)) = d"
proof (induction ps arbitrary: m "is")
  case Nil
  then show ?case by simp
next
  case (Cons p ps)
  show ?case
  proof (cases "is")
    case Nil
    then show ?thesis by simp
  next
    case (Cons i is')
    have "\<forall>q\<in>set ps. map_of (AList.update p (c + i) m) q = None"
      using Cons.prems by (auto simp: update_conv')
    with Cons.IH [of "AList.update p (c + i) m" is'] Cons.prems Cons
    show ?thesis by (simp add: scan_step_def)
  qed
qed

lemma add_edges_fresh:
  assumes "length src = length tgt" "distinct (zip src tgt)"
    and "\<forall>p\<in>set (zip src tgt). map_of (nids_eid_mapping g) p = None"
  shows "\<exists>m. snd (add_edges g (L src) (L tgt)) =
     Done (g\<lparr> nids_eid_mapping := m,
             edge_indices_src := edge_indices_src g @ src,
             edge_indices_tgt := edge_indices_tgt g @ tgt,
             edge_attributes := edge_attributes g @ replicate (length src) res_init_edge_attributes,
             edge_features := pad_features (edge_features g) (length src) \<rparr>)"
proof -
  have "snd (fold (scan_step (length (edge_attributes g))) (zip [0..<length src] (zip src tgt))
          (nids_eid_mapping g, [])) = []"
    using assms by (intro scan_no_duplicates) auto
  then show ?thesis
    using assms(1)
    by (auto simp: add_edges_def check_and_expand_def Let_def list_ex_iff split_beta
        endpoint_check_never_fails)
qed

lemma column_Nil [simp]: "column tab [] k = []"
  by (simp add: column_def map_filter_simps)

lemma column_Cons:
  "column tab (g # gs) k = (case map_of (tab g) k of None \<Rightarrow> column tab gs k
                            | Some v \<Rightarrow> v # column tab gs k)"
  by (simp add: column_def map_filter_simps split: option.splits)

lemma collect_features_map_of:
  "distinct (map fst fs) \<Longrightarrow>
   map_of (collect_features fs acc) k =
     (case map_of fs k of
        None \<Rightarrow> map_of acc k
      | Some v \<Rightarrow> Some ((case map_of acc k of None \<Rightarrow> [] | Some vs \<Rightarrow> vs) @ [v]))"
proof (induction fs arbitrary: acc)
  case Nil
  then show ?case by simp
next
  case (Cons kv fs)
  obtain k' v' where kv: "kv = (k', v')" by (cases kv)
  from Cons.prems kv have d: "distinct (map fst fs)" and n: "map_of fs k' = None"
    by (auto simp: map_of_eq_None_iff)
  show ?case
    using n by (simp add: kv Cons.IH [OF d] update_conv' split: option.splits)
qed

lemma collect_features_distinct:
  "distinct (map fst acc) \<Longrightarrow> distinct (map fst (collect_features fs acc))"
  by (induction fs arbitrary: acc) (auto simp: distinct_update split: option.splits)

lemma collect_all_map_of:
  "\<forall>g\<in>set gs. distinct (map fst (tab g)) \<Longrightarrow>
   map_of (fold (\<lambda>g. collect_features (tab g)) gs acc) k =
     (if column tab gs k = [] then map_of acc k
      else Some ((case map_of acc k of None \<Rightarrow> [] | Some vs \<Rightarrow> vs) @ column tab gs k))"
proof (induction gs arbitrary: acc)
  case Nil
  then show ?case by simp
next
  case (Cons g gs)
  then show ?case
    by (simp add: collect_features_map_of column_Cons split: option.splits)
qed

lemma collect_all_distinct:
  "distinct (map fst acc) \<Longrightarrow> distinct (map fst (fold (\<lambda>g. collect_features (tab g)) gs acc))"
  by (induction gs arbitrary: acc) (simp_all add: collect_features_distinct)

lemma set_batch_features_ok:
  assumes ok: "\<And>g k t. shape0 t = cnt g \<Longrightarrow> assign g k t = Done (put k t g)"
    and cnt: "\<And>g k t. cnt (put k t g) = cnt g"
  shows "\<forall>(k, v)\<in>set kvs. \<forall>ts. those v = Some ts \<longrightarrow>
             (\<exists>t. torch_cat ts = Inr t \<and> shape0 t = cnt big) \<Longrightarrow>
     set_batch_features assign kvs big =
       Inr (fold (\<lambda>(k, v) g. case those v of
                               None \<Rightarrow> g
                             | Some ts \<Rightarrow> (case torch_cat ts of
                                            Inl e \<Rightarrow> g
                                          | Inr t \<Rightarrow> put k t g)) kvs big)"
proof (induction kvs arbitrary: big)
  case Nil
  then show ?case by simp
next
  case (Cons kv kvs)
  obtain k v where kv: "kv = (k, v)" by (cases kv)
  show ?case
  proof (cases "those v")
    case None
    with Cons kv show ?thesis by simp
  next
    case (Some ts)
    with Cons.prems kv obtain t where t: "torch_cat ts = Inr t" "shape0 t = cnt big"
      by auto
    have "\<forall>(k', v')\<in>set kvs. \<forall>ts. those v' = Some ts \<longrightarrow>
             (\<exists>t'. torch_cat ts = Inr t' \<and> shape0 t' = cnt (put k t big))"
      using Cons.prems by (simp add: cnt)
    from Cons.IH [OF this] Some t kv show ?thesis
      by (simp add: ok)
  qed
qed

lemma batched_fold_node:
  "fold (\<lambda>(k, v) g. case those v of
                      None \<Rightarrow> g
                    | Some ts \<Rightarrow> (case torch_cat ts of
                                   Inl e \<Rightarrow> g
                                 | Inr t \<Rightarrow> g\<lparr>node_features :=
                                              AList.update k (Some t) (node_features g)\<rparr>)) kvs g
   = g\<lparr>node_features := batched_table kvs (node_features g)\<rparr>"
  unfolding batched_table_def
  by (induction kvs arbitrary: g) (auto split: option.splits sum.splits)

lemma batched_fold_edge:
  "fold (\<lambda>(k, v) g. case those v of
                      None \<Rightarrow> g
                    | Some ts \<Rightarrow> (case torch_cat ts of
                                   Inl e \<Rightarrow> g
                                 | Inr t \<Rightarrow> g\<lparr>edge_features :=
                                              AList.update k (Some t) (edge_features g)\<rparr>)) kvs g
   = g\<lparr>edge_features := batched_table kvs (edge_features g)\<rparr>"
  unfolding batched_table_def
  by (induction kvs arbitrary: g) (auto split: option.splits sum.splits)

lemma batched_table_map_of:
  "distinct (map fst kvs) \<Longrightarrow>
   map_of (batched_table kvs fs) k =
     (case map_of kvs k of
        None \<Rightarrow> map_of fs k
      | Some v \<Rightarrow> (case those v of
                     None \<Rightarrow> map_of fs k
                   | Some ts \<Rightarrow> (case torch_cat ts of
                                  Inl e \<Rightarrow> map_of fs k
                                | Inr t \<Rightarrow> Some (Some t))))"
  unfolding batched_table_def
proof (induction kvs arbitrary: fs)
  case Nil
  then show ?case by simp
next
  case (Cons kv kvs)
  obtain k' v' where kv: "kv = (k', v')" by (cases kv)
  from Cons.prems kv have d: "distinct (map fst kvs)" and n: "map_of kvs k' = None"
    by (auto simp: map_of_eq_None_iff)
  show ?case
    using n by (simp add: kv Cons.IH [OF d] update_conv' split: option.splits sum.splits)
qed

lemma batched_table_distinct:
  "distinct (map fst fs) \<Longrightarrow> distinct (map fst (batched_table kvs fs))"
  unfolding batched_table_def
  by (induction kvs arbitrary: fs) (auto simp: distinct_update split: option.splits sum.splits)

lemma those_eq_Some: "those xs = Some ys \<longleftrightarrow> xs = map Some ys"
proof (induction xs arbitrary: ys)
  case Nil
  then show ?case by auto
next
  case (Cons x xs)
  then show ?case by (cases x; cases ys) auto
qed

lemma set_column: "set (column tab gs k) = {x. \<exists>g\<in>set gs. map_of (tab g) k = Some x}"
  by (induction gs) (auto simp: column_Cons split: option.splits)

lemma column_all: "\<forall>h\<in>set gs. map_of (tab h) k = Some (f h) \<Longrightarrow> column tab gs k = map f gs"
  by (induction gs) (simp_all add: column_Cons)

lemma concat_rows_filter:
  "concat (map rows (filter (\<lambda>t. \<not> (trailing t = [] \<and> rows t = [])) ts)) = concat (map rows ts)"
  by (induction ts) auto

lemma torch_cat_same:
  assumes "ts \<noteq> []" "\<forall>u\<in>set ts. trailing u = tr"
  shows "torch_cat ts = Inr (Tensor tr (concat (map rows ts)))"
proof (cases "filter (\<lambda>t. \<not> (trailing t = [] \<and> rows t = [])) ts")
  case Nil
  then have a: "\<forall>t\<in>set ts. trailing t = [] \<and> rows t = []"
    by (simp add: filter_empty_conv)
  with assms have "tr = []" by (cases ts) auto
  moreover from a have "concat (map rows ts) = []" by simp
  ultimately show ?thesis using assms(1) Nil by (simp add: torch_cat_def)
next
  case (Cons t us)
  then have "set (t # us) \<subseteq> set ts"
    by (metis filter_is_subset)
  with assms(2) have "trailing t = tr" "\<forall>u\<in>set us. trailing u = tr" by auto
  moreover have "concat (map rows (t # us)) = concat (map rows ts)"
    using concat_rows_filter [of ts] Cons by simp
  ultimately show ?thesis using assms(1) Cons
    by (simp add: torch_cat_def list_all_iff del: concat.simps list.map)
qed

lemma aligned_D: "aligned fs n \<Longrightarrow> map_of fs k = Some (Some t) \<Longrightarrow> shape0 t = n"
  by (auto simp: aligned_def list_all_iff dest!: map_of_SomeD)

lemma collected_entry:
  assumes b: "batchable tab G"
    and d: "\<forall>g\<in>set G. distinct (map fst (tab g))"
    and al: "\<forall>g\<in>set G. aligned (tab g) (cnt g)"
    and m: "map_of (fold (\<lambda>g. collect_features (tab g)) G []) k = Some v"
    and th: "those v = Some ts"
  shows "ts = map (\<lambda>g. tensor_at (tab g) k) G
       \<and> (\<forall>g\<in>set G. map_of (tab g) k = Some (Some (tensor_at (tab g) k)))
       \<and> (\<exists>tr. (\<forall>g\<in>set G. trailing (tensor_at (tab g) k) = tr)
              \<and> torch_cat ts = Inr (Tensor tr (concat (map rows ts))))
       \<and> length (concat (map rows ts)) = sum_list (map cnt G)"
proof -
  from m d have v: "v = column tab G k" "v \<noteq> []"
    by (auto simp: collect_all_map_of split: if_splits)
  from th have vs: "v = map Some ts" by (simp add: those_eq_Some)
  from v vs obtain g0 t0 where g0: "g0 \<in> set G" "map_of (tab g0) k = Some (Some t0)"
  proof -
    from v(2) obtain x where x: "x \<in> set v" by (cases v) auto
    with vs obtain t where "x = Some t" by auto
    with x v(1) obtain g where "g \<in> set G" "map_of (tab g) k = Some (Some t)"
      by (auto simp: set_column)
    then show ?thesis by (rule that)
  qed
  have nonone: "\<not> list_ex (\<lambda>h. map_of (tab h) k = Some None) G"
  proof
    assume "list_ex (\<lambda>h. map_of (tab h) k = Some None) G"
    then have "None \<in> set (column tab G k)" by (auto simp: set_column list_ex_iff)
    with v(1) have "None \<in> set v" by simp
    then show False unfolding vs by auto
  qed
  from g0 have "(k, Some t0) \<in> set (tab g0)" by (auto dest: map_of_SomeD)
  with b g0(1) nonone have
    all: "list_all (\<lambda>h. case map_of (tab h) k of Some (Some u) \<Rightarrow> trailing u = trailing t0
                         | _ \<Rightarrow> False) G"
    unfolding batchable_def list_all_iff by fastforce
  have each: "map_of (tab g) k = Some (Some (tensor_at (tab g) k))
              \<and> trailing (tensor_at (tab g) k) = trailing t0" if "g \<in> set G" for g
    using all that by (auto simp: list_all_iff tensor_at_def split: option.splits)
  then have "column tab G k = map (\<lambda>g. Some (tensor_at (tab g) k)) G"
    by (intro column_all) simp
  with v(1) vs have "map Some ts = map Some (map (\<lambda>g. tensor_at (tab g) k) G)"
    by (simp add: comp_def)
  then have ts: "ts = map (\<lambda>g. tensor_at (tab g) k) G"
    by (simp only: inj_map_eq_map [OF inj_Some])
  have ne: "ts \<noteq> []" using v(2) vs by auto
  have tr: "\<forall>u\<in>set ts. trailing u = trailing t0" using each ts by auto
  have sz: "shape0 (tensor_at (tab g) k) = cnt g" if "g \<in> set G" for g
    using each [OF that] al that by (auto dest: aligned_D)
  have m: "map (\<lambda>g. length (rows (tensor_at (tab g) k))) G = map cnt G"
    using sz by (simp add: shape0_def)
  have "length (concat (map rows ts))
          = sum_list (map (\<lambda>g. length (rows (tensor_at (tab g) k))) G)"
    by (simp add: ts length_concat comp_def)
  then have len: "length (concat (map rows ts)) = sum_list (map cnt G)"
    by (simp only: m)
  show ?thesis
  proof (intro conjI)
    show "ts = map (\<lambda>g. tensor_at (tab g) k) G" by (rule ts)
    show "\<forall>g\<in>set G. map_of (tab g) k = Some (Some (tensor_at (tab g) k))"
      using each by blast
    show "\<exists>tr. (\<forall>g\<in>set G. trailing (tensor_at (tab g) k) = tr)
              \<and> torch_cat ts = Inr (Tensor tr (concat (map rows ts)))"
      using each torch_cat_same [OF ne tr] by blast
    show "length (concat (map rows ts)) = sum_list (map cnt G)" by (rule len)
  qed
qed

lemma offset_0 [simp]: "offset ns 0 = 0"
  by (simp add: offset_def)

lemma offset_Suc: "i < length ns \<Longrightarrow> offset ns (Suc i) = offset ns i + ns ! i"
  by (simp add: offset_def take_Suc_conv_app_nth)

lemma offset_le: "i < length ns \<Longrightarrow> offset ns i + ns ! i \<le> sum_list ns"
proof -
  assume a: "i < length ns"
  have "sum_list ns = sum_list (take (Suc i) ns) + sum_list (drop (Suc i) ns)"
    by (metis append_take_drop_id sum_list.append)
  with a show ?thesis by (simp add: offset_def take_Suc_conv_app_nth)
qed

lemma offset_all: "offset ns (length ns) = sum_list ns"
  by (simp add: offset_def)

lemma concat_slice:
  "i < length xss \<Longrightarrow>
   take (length (xss ! i)) (drop (offset (map length xss) i) (concat xss)) = xss ! i"
proof (induction xss arbitrary: i)
  case Nil
  then show ?case by simp
next
  case (Cons xs xss)
  show ?case
  proof (cases i)
    case 0
    then show ?thesis by simp
  next
    case (Suc j)
    with Cons.prems have "j < length xss" by simp
    from Cons.IH [OF this] Suc show ?thesis by (simp add: offset_def)
  qed
qed

lemma split_feature_ok:
  assumes ok: "\<And>g k t. shape0 t = cnt g \<Longrightarrow> assign g k t = Done (put k t g)"
    and sz: "sum_list ns \<le> shape0 v"
  shows "length ret = length ns \<Longrightarrow> \<forall>i<length ns. j \<le> i \<longrightarrow> cnt (ret ! i) = ns ! i \<Longrightarrow>
     j \<le> length ns \<Longrightarrow>
     split_feature assign (Some ns) k v [j..<length ns] (offset ns j) ret =
     Inr (map (\<lambda>i. if j \<le> i then put k (tensor_slice v (offset ns i) (offset ns i + ns ! i)) (ret ! i)
                   else ret ! i) [0..<length ns])"
proof (induction "length ns - j" arbitrary: j ret)
  case 0
  then have "j = length ns" by simp
  with 0 show ?case by (auto intro: nth_equalityI)
next
  case (Suc d)
  then have jl: "j < length ns" by simp
  let ?sl = "tensor_slice v (offset ns j) (offset ns j + ns ! j)"
  let ?ret1 = "ret[j := put k ?sl (ret ! j)]"
  have "offset ns j + ns ! j \<le> length (rows v)"
    using offset_le [OF jl] sz by (simp add: shape0_def)
  then have "shape0 ?sl = ns ! j"
    by (simp add: tensor_slice_def shape0_def)
  with Suc.prems jl have a: "assign (ret ! j) k ?sl = Done (put k ?sl (ret ! j))"
    by (intro ok) simp
  have step: "split_feature assign (Some ns) k v [j..<length ns] (offset ns j) ret =
      split_feature assign (Some ns) k v [Suc j..<length ns] (offset ns (Suc j)) ?ret1"
    using jl Suc.prems a by (simp add: upt_conv_Cons subscript_def offset_Suc)
  have "split_feature assign (Some ns) k v [Suc j..<length ns] (offset ns (Suc j)) ?ret1 =
     Inr (map (\<lambda>i. if Suc j \<le> i
                   then put k (tensor_slice v (offset ns i) (offset ns i + ns ! i)) (?ret1 ! i)
                   else ?ret1 ! i) [0..<length ns])"
    using Suc.hyps(2) Suc.prems jl by (intro Suc.hyps(1)) auto
  also have "map (\<lambda>i. if Suc j \<le> i
                   then put k (tensor_slice v (offset ns i) (offset ns i + ns ! i)) (?ret1 ! i)
                   else ?ret1 ! i) [0..<length ns]
      = map (\<lambda>i. if j \<le> i then put k (tensor_slice v (offset ns i) (offset ns i + ns ! i)) (ret ! i)
                   else ret ! i) [0..<length ns]"
  proof (intro nth_equalityI)
    fix i
    assume "i < length (map (\<lambda>i. if Suc j \<le> i
                   then put k (tensor_slice v (offset ns i) (offset ns i + ns ! i)) (?ret1 ! i)
                   else ?ret1 ! i) [0..<length ns])"
    then have il: "i < length ns" by simp
    consider "i < j" | "i = j" | "j < i" by arith
    then show "map (\<lambda>i. if Suc j \<le> i
                   then put k (tensor_slice v (offset ns i) (offset ns i + ns ! i)) (?ret1 ! i)
                   else ?ret1 ! i) [0..<length ns] ! i
      = map (\<lambda>i. if j \<le> i then put k (tensor_slice v (offset ns i) (offset ns i + ns ! i)) (ret ! i)
                   else ret ! i) [0..<length ns] ! i"
      using il Suc.prems(1) by cases simp_all
  qed simp
  finally show ?case using step by simp
qed

lemma split_features_ok:
  assumes ok: "\<And>g k t. shape0 t = cnt g \<Longrightarrow> assign g k t = Done (put k t g)"
    and keep: "\<And>g k t. cnt (put k t g) = cnt g"
  shows "length ret = length ns \<Longrightarrow> \<forall>i<length ns. cnt (ret ! i) = ns ! i \<Longrightarrow>
     \<forall>(k, v)\<in>set fs. \<forall>t. v = Some t \<longrightarrow> sum_list ns \<le> shape0 t \<Longrightarrow>
     split_features assign (Some ns) (length ns) fs ret =
     Inr (map (\<lambda>i. fold (\<lambda>(k, v) g. case v of
                                      None \<Rightarrow> g
                                    | Some t \<Rightarrow>
                                        put k (tensor_slice t (offset ns i) (offset ns i + ns ! i)) g)
                      fs (ret ! i)) [0..<length ns])"
proof (induction fs arbitrary: ret)
  case Nil
  then show ?case by (auto intro: nth_equalityI)
next
  case (Cons kv fs)
  obtain k v where kv: "kv = (k, v)" by (cases kv)
  show ?case
  proof (cases v)
    case None
    with Cons kv show ?thesis by simp
  next
    case (Some t)
    let ?ret1 = "map (\<lambda>i. put k (tensor_slice t (offset ns i) (offset ns i + ns ! i)) (ret ! i))
                   [0..<length ns]"
    from Cons.prems(3) kv Some have sz: "sum_list ns \<le> shape0 t" by simp
    have a: "split_feature assign (Some ns) k t [0..<length ns] 0 ret = Inr ?ret1"
      using split_feature_ok [of cnt assign put ns t ret 0 k, OF ok sz] Cons.prems(1,2) by simp
    have "split_features assign (Some ns) (length ns) fs ?ret1 =
       Inr (map (\<lambda>i. fold (\<lambda>(k, v) g. case v of
                                      None \<Rightarrow> g
                                    | Some t \<Rightarrow>
                                        put k (tensor_slice t (offset ns i) (offset ns i + ns ! i)) g)
                      fs (?ret1 ! i)) [0..<length ns])"
      using Cons.prems by (intro Cons.IH) (auto simp: keep)
    with a kv Some show ?thesis by (auto intro: nth_equalityI)
  qed
qed

lemma length_rebased [simp]: "length (rebased gs c) = length gs"
  by (induction gs arbitrary: c) simp_all

lemma rebased_nth:
  "i < length gs \<Longrightarrow>
   rebased gs c ! i =
     map (shift_edge (c + offset (map get_node_num gs) i))
       (zip (edge_indices_src (gs ! i)) (edge_indices_tgt (gs ! i)))"
proof (induction gs arbitrary: c i)
  case Nil
  then show ?case by simp
next
  case (Cons g gs)
  show ?case
  proof (cases i)
    case 0
    then show ?thesis by simp
  next
    case (Suc j)
    with Cons.prems have "j < length gs" by simp
    from Cons.IH [OF this, of "c + get_node_num g"] Suc show ?thesis
      by (simp add: offset_def ac_simps)
  qed
qed

lemma map_length_rebased:
  "\<forall>g\<in>set gs. length (edge_indices_tgt g) = length (edge_indices_src g) \<Longrightarrow>
   map length (rebased gs c) = map get_edge_num gs"
  by (induction gs arbitrary: c) (simp_all add: get_edge_num_def)

lemma stack_edge_indices_ok:
  "\<forall>g\<in>set gs. length (edge_indices_tgt g) = length (edge_indices_src g) \<Longrightarrow>
   stack_edge_indices gs c (a, b) =
     Inr (a @ map fst (concat (rebased gs c)), b @ map snd (concat (rebased gs c)))"
proof (induction gs arbitrary: c a b)
  case Nil
  then show ?case by simp
next
  case (Cons g gs)
  then show ?case
    by (simp add: get_all_edges_def shift_edge_def comp_def)
qed

lemma rebased_distinct:
  assumes "\<forall>g\<in>set gs. distinct (zip (edge_indices_src g) (edge_indices_tgt g))
             \<and> list_all (\<lambda>(s, t). 0 \<le> s \<and> s < int (get_node_num g) \<and> 0 \<le> t
                                  \<and> t < int (get_node_num g))
                 (zip (edge_indices_src g) (edge_indices_tgt g))"
  shows "distinct (concat (rebased gs c)) \<and> (\<forall>e\<in>set (concat (rebased gs c)). int c \<le> fst e)"
  using assms
proof (induction gs arbitrary: c)
  case Nil
  then show ?case by simp
next
  case (Cons g gs)
  let ?es = "zip (edge_indices_src g) (edge_indices_tgt g)"
  have inj: "inj (shift_edge c)"
    by (auto simp: inj_on_def shift_edge_def prod_eq_iff)
  from Cons.prems have d: "distinct ?es"
    and r: "\<forall>e\<in>set ?es. 0 \<le> fst e \<and> fst e < int (get_node_num g)"
    by (auto simp: list_all_iff)
  from Cons.prems have ih: "distinct (concat (rebased gs (c + get_node_num g)))"
    "\<forall>e\<in>set (concat (rebased gs (c + get_node_num g))). int (c + get_node_num g) \<le> fst e"
    using Cons.IH [of "c + get_node_num g"] by auto
  have h1: "distinct (map (shift_edge c) ?es)"
    using d inj_on_subset [OF inj subset_UNIV] by (simp add: distinct_map)
  have h2: "\<forall>e\<in>set (map (shift_edge c) ?es). int c \<le> fst e \<and> fst e < int (c + get_node_num g)"
    using r by (auto simp: shift_edge_def)
  have disj: "set (map (shift_edge c) ?es) \<inter> set (concat (rebased gs (c + get_node_num g))) = {}"
  proof -
    have False if "e \<in> set (map (shift_edge c) ?es)"
      "e \<in> set (concat (rebased gs (c + get_node_num g)))" for e
    proof -
      from h2 that(1) have "fst e < int (c + get_node_num g)" by blast
      moreover from ih(2) that(2) have "int (c + get_node_num g) \<le> fst e" by blast
      ultimately show False by simp
    qed
    then show ?thesis by blast
  qed
  have low: "int c \<le> fst e" if "e \<in> set (concat (rebased (g # gs) c))" for e
  proof -
    from that have "e \<in> set (map (shift_edge c) ?es)
        \<or> e \<in> set (concat (rebased gs (c + get_node_num g)))"
      by simp
    then show ?thesis
    proof
      assume "e \<in> set (map (shift_edge c) ?es)"
      with h2 show ?thesis by blast
    next
      assume "e \<in> set (concat (rebased gs (c + get_node_num g)))"
      with ih(2) have "int (c + get_node_num g) \<le> fst e" by blast
      then show ?thesis by simp
    qed
  qed
  have "distinct (concat (rebased (g # gs) c))"
    using h1 ih(1) disj by simp
  with low show ?case by blast
qed

lemma pad_init_node [simp]: "pad_features res_init_node_features n = res_init_node_features"
  by (simp add: pad_features_def res_init_node_features_def)

lemma pad_init_edge [simp]: "pad_features res_init_edge_features n = res_init_edge_features"
  by (simp add: pad_features_def res_init_edge_features_def)

lemma unshift_src:
  "length ys = length xs \<Longrightarrow> map ((\<lambda>e. fst e - int c) \<circ> shift_edge c) (zip xs ys) = xs"
  by (induction xs ys rule: list_induct2') (simp_all add: shift_edge_def)

lemma unshift_tgt:
  "length ys = length xs \<Longrightarrow> map ((\<lambda>e. snd e - int c) \<circ> shift_edge c) (zip xs ys) = ys"
  by (induction xs ys rule: list_induct2') (simp_all add: shift_edge_def)

lemma construct_step:
  fixes G :: "('a::zero, 'v) graph list" and b :: "('a, 'v) graph"
  assumes i: "i < length G"
    and wf: "\<forall>g\<in>set G. well_formed g \<and> 0 < get_node_num g"
    and nn: "batch_num_nodes b = Some (map get_node_num G)"
    and ne: "batch_num_edges b = Some (map get_edge_num G)"
  shows "\<exists>c. child_of c (G ! i) \<and>
     construct_graphs b (concat (rebased G 0)) (i # is)
        (ret, offset (map get_node_num G) i, offset (map get_edge_num G) i) =
     construct_graphs b (concat (rebased G 0)) is
        (ret @ [c], offset (map get_node_num G) (Suc i), offset (map get_edge_num G) (Suc i))"
proof -
  let ?g = "G ! i"
  let ?n = "get_node_num ?g"
  let ?m = "get_edge_num ?g"
  let ?cn = "offset (map get_node_num G) i"
  let ?ce = "offset (map get_edge_num G) i"
  from i wf have w: "well_formed ?g" and pos: "0 < ?n" by auto
  from wf have al: "\<forall>g\<in>set G. length (edge_indices_tgt g) = length (edge_indices_src g)"
    by (simp add: well_formed_def)
  let ?g1 = "(init_storage (device b) :: ('a, 'v) graph)\<lparr>
                node_attributes := replicate ?n res_init_node_attr\<rparr>"
  have a1: "add_nodes (init_storage (device b) :: ('a, 'v) graph) (int ?n) = Done ?g1"
    using pos by (simp add: add_nodes_def init_storage_def)
  have blk: "take ?m (drop ?ce (concat (rebased G 0))) =
      map (shift_edge ?cn) (zip (edge_indices_src ?g) (edge_indices_tgt ?g))"
  proof -
    have "take (length (rebased G 0 ! i)) (drop (offset (map length (rebased G 0)) i)
            (concat (rebased G 0))) = rebased G 0 ! i"
      using i by (intro concat_slice) simp
    moreover have "length (rebased G 0 ! i) = ?m"
      using i w by (simp add: rebased_nth well_formed_def get_edge_num_def)
    ultimately show ?thesis
      using i by (simp add: map_length_rebased [OF al] rebased_nth)
  qed
  have s: "map (\<lambda>e. fst e - int ?cn) (take ?m (drop ?ce (concat (rebased G 0))))
             = edge_indices_src ?g"
    and t: "map (\<lambda>e. snd e - int ?cn) (take ?m (drop ?ce (concat (rebased G 0))))
             = edge_indices_tgt ?g"
    using w by (simp_all add: blk unshift_src unshift_tgt well_formed_def)
  have "\<exists>m. snd (add_edges ?g1 (L (edge_indices_src ?g)) (L (edge_indices_tgt ?g))) =
     Done (?g1\<lparr> nids_eid_mapping := m,
             edge_indices_src := edge_indices_src ?g1 @ edge_indices_src ?g,
             edge_indices_tgt := edge_indices_tgt ?g1 @ edge_indices_tgt ?g,
             edge_attributes := edge_attributes ?g1 @
                replicate (length (edge_indices_src ?g)) res_init_edge_attributes,
             edge_features := pad_features (edge_features ?g1) (length (edge_indices_src ?g)) \<rparr>)"
    using w by (intro add_edges_fresh) (simp_all add: well_formed_def init_storage_def)
  then obtain m where a2:
    "snd (add_edges ?g1 (L (edge_indices_src ?g)) (L (edge_indices_tgt ?g))) =
     Done (?g1\<lparr> nids_eid_mapping := m,
             edge_indices_src := edge_indices_src ?g,
             edge_indices_tgt := edge_indices_tgt ?g,
             edge_attributes := replicate ?m res_init_edge_attributes,
             edge_features := res_init_edge_features \<rparr>)"
    by (auto simp: init_storage_def get_edge_num_def)
  let ?c = "?g1\<lparr> nids_eid_mapping := m,
             edge_indices_src := edge_indices_src ?g,
             edge_indices_tgt := edge_indices_tgt ?g,
             edge_attributes := replicate ?m res_init_edge_attributes,
             edge_features := res_init_edge_features \<rparr>"
  have "child_of ?c ?g"
    by (simp add: child_of_def init_storage_def)
  moreover have "construct_graphs b (concat (rebased G 0)) (i # is) (ret, ?cn, ?ce) =
     construct_graphs b (concat (rebased G 0)) is
        (ret @ [?c], offset (map get_node_num G) (Suc i), offset (map get_edge_num G) (Suc i))"
    using i by (simp add: GraphData_init_def subscript_def nn ne a1 s t a2 offset_Suc Let_def)
  ultimately show ?thesis by blast
qed

lemma construct_graphs_ok:
  fixes G :: "('a::zero, 'v) graph list" and b :: "('a, 'v) graph"
  assumes wf: "\<forall>g\<in>set G. well_formed g \<and> 0 < get_node_num g"
    and nn: "batch_num_nodes b = Some (map get_node_num G)"
    and ne: "batch_num_edges b = Some (map get_edge_num G)"
  shows "j \<le> length G \<Longrightarrow>
     \<exists>new. construct_graphs b (concat (rebased G 0)) [j..<length G]
              (ret, offset (map get_node_num G) j, offset (map get_edge_num G) j) =
            Inr (ret @ new, offset (map get_node_num G) (length G),
                 offset (map get_edge_num G) (length G))
          \<and> length new = length G - j
          \<and> (\<forall>i<length G - j. child_of (new ! i) (G ! (j + i)))"
proof (induction "length G - j" arbitrary: j ret)
  case 0
  then have "j = length G" by simp
  then show ?case by simp
next
  case (Suc d)
  then have jl: "j < length G" by simp
  from construct_step [OF jl wf nn ne, of "[Suc j..<length G]" ret] obtain c where
    c: "child_of c (G ! j)"
    and st: "construct_graphs b (concat (rebased G 0)) (j # [Suc j..<length G])
        (ret, offset (map get_node_num G) j, offset (map get_edge_num G) j) =
      construct_graphs b (concat (rebased G 0)) [Suc j..<length G]
        (ret @ [c], offset (map get_node_num G) (Suc j), offset (map get_edge_num G) (Suc j))"
    by blast
  have "d = length G - Suc j" "Suc j \<le> length G" using Suc.hyps(2) jl by simp_all
  from Suc.hyps(1) [OF this, of "ret @ [c]"] obtain new where
    n: "construct_graphs b (concat (rebased G 0)) [Suc j..<length G]
          (ret @ [c], offset (map get_node_num G) (Suc j), offset (map get_edge_num G) (Suc j)) =
        Inr ((ret @ [c]) @ new, offset (map get_node_num G) (length G),
             offset (map get_edge_num G) (length G))"
    and l: "length new = length G - Suc j"
    and ch: "\<forall>i<length G - Suc j. child_of (new ! i) (G ! (Suc j + i))"
    by blast
  have "\<forall>i<length G - j. child_of ((c # new) ! i) (G ! (j + i))"
  proof (intro allI impI)
    fix i assume "i < length G - j"
    then show "child_of ((c # new) ! i) (G ! (j + i))"
      using c ch by (cases i) simp_all
  qed
  moreover have "length (c # new) = length G - j" using l jl by simp
  moreover have "construct_graphs b (concat (rebased G 0)) [j..<length G]
              (ret, offset (map get_node_num G) j, offset (map get_edge_num G) j) =
            Inr (ret @ (c # new), offset (map get_node_num G) (length G),
                 offset (map get_edge_num G) (length G))"
    using st n jl by (simp add: upt_conv_Cons)
  ultimately show ?case by blast
qed

lemma split_attributes_ok:
  assumes nn: "batch_num_nodes b = Some nsN"
    and ne: "batch_num_edges b = Some nsE"
    and le: "length nsE = length nsN"
    and sn: "sum_list nsN \<le> length (node_attributes b)"
    and se: "sum_list nsE \<le> length (edge_attributes b)"
  shows "length ret = length nsN \<Longrightarrow>
     \<forall>i<length nsN. j \<le> i \<longrightarrow> length (node_attributes (ret ! i)) = nsN ! i
                            \<and> length (edge_attributes (ret ! i)) = nsE ! i \<Longrightarrow>
     j \<le> length nsN \<Longrightarrow>
     split_attributes b [j..<length nsN] (offset nsN j) (offset nsE j) ret =
       Inr (map (\<lambda>i. if j \<le> i
                     then (ret ! i)\<lparr>
                            node_attributes :=
                              take (nsN ! i) (drop (offset nsN i) (node_attributes b)),
                            edge_attributes :=
                              take (nsE ! i) (drop (offset nsE i) (edge_attributes b))\<rparr>
                     else ret ! i) [0..<length nsN])"
proof (induction "length nsN - j" arbitrary: j ret)
  case 0
  then have "j = length nsN" by simp
  with 0 show ?case by (auto intro: nth_equalityI)
next
  case (Suc d)
  then have jl: "j < length nsN" by simp
  then have jl': "j < length nsE" using le by simp
  let ?na = "take (nsN ! j) (drop (offset nsN j) (node_attributes b))"
  let ?ea = "take (nsE ! j) (drop (offset nsE j) (edge_attributes b))"
  let ?ret1 = "ret[j := (ret ! j)\<lparr>node_attributes := ?na, edge_attributes := ?ea\<rparr>]"
  have r1: "copy_records (node_attributes (ret ! j)) 0 (node_attributes b) (offset nsN j) (nsN ! j)
        = Inr ?na"
    using offset_le [OF jl] sn Suc.prems(2) jl by (subst copy_records_ok) simp_all
  have r2: "copy_records (edge_attributes (ret ! j)) 0 (edge_attributes b) (offset nsE j) (nsE ! j)
        = Inr ?ea"
    using offset_le [OF jl'] se Suc.prems(2) jl by (subst copy_records_ok) simp_all
  have step: "split_attributes b [j..<length nsN] (offset nsN j) (offset nsE j) ret =
      split_attributes b [Suc j..<length nsN] (offset nsN (Suc j)) (offset nsE (Suc j)) ?ret1"
    using jl jl' Suc.prems(1) by (simp add: upt_conv_Cons subscript_def nn ne r1 r2 offset_Suc)
  have "split_attributes b [Suc j..<length nsN] (offset nsN (Suc j)) (offset nsE (Suc j)) ?ret1 =
       Inr (map (\<lambda>i. if Suc j \<le> i
                     then (?ret1 ! i)\<lparr>
                            node_attributes :=
                              take (nsN ! i) (drop (offset nsN i) (node_attributes b)),
                            edge_attributes :=
                              take (nsE ! i) (drop (offset nsE i) (edge_attributes b))\<rparr>
                     else ?ret1 ! i) [0..<length nsN])"
    using Suc.hyps(2) Suc.prems jl by (intro Suc.hyps(1)) auto
  also have "map (\<lambda>i. if Suc j \<le> i
                     then (?ret1 ! i)\<lparr>
                            node_attributes :=
                              take (nsN ! i) (drop (offset nsN i) (node_attributes b)),
                            edge_attributes :=
                              take (nsE ! i) (drop (offset nsE i) (edge_attributes b))\<rparr>
                     else ?ret1 ! i) [0..<length nsN]
     = map (\<lambda>i. if j \<le> i
                     then (ret ! i)\<lparr>
                            node_attributes :=
                              take (nsN ! i) (drop (offset nsN i) (node_attributes b)),
                            edge_attributes :=
                              take (nsE ! i) (drop (offset nsE i) (edge_attributes b))\<rparr>
                     else ret ! i) [0..<length nsN]"
  proof (intro nth_equalityI)
    fix i
    assume "i < length (map (\<lambda>i. if Suc j \<le> i
                     then (?ret1 ! i)\<lparr>
                            node_attributes :=
                              take (nsN ! i) (drop (offset nsN i) (node_attributes b)),
                            edge_attributes :=
                              take (nsE ! i) (drop (offset nsE i) (edge_attributes b))\<rparr>
                     else ?ret1 ! i) [0..<length nsN])"
    then have il: "i < length nsN" by simp
    consider "i < j" | "i = j" | "j < i" by arith
    then show "map (\<lambda>i. if Suc j \<le> i
                     then (?ret1 ! i)\<lparr>
                            node_attributes :=
                              take (nsN ! i) (drop (offset nsN i) (node_attributes b)),
                            edge_attributes :=
                              take (nsE ! i) (drop (offset nsE i) (edge_attributes b))\<rparr>
                     else ?ret1 ! i) [0..<length nsN] ! i
     = map (\<lambda>i. if j \<le> i
                     then (ret ! i)\<lparr>
                            node_attributes :=
                              take (nsN ! i) (drop (offset nsN i) (node_attributes b)),
                            edge_attributes :=
                              take (nsE ! i) (drop (offset nsE i) (edge_attributes b))\<rparr>
                     else ret ! i) [0..<length nsN] ! i"
      using il Suc.prems(1) by cases simp_all
  qed simp
  finally show ?case using step by simp
qed

lemma zip_fst_snd: "zip (map fst es) (map snd es) = es"
  by (induction es) simp_all

lemma sum_pos:
  "G \<noteq> [] \<Longrightarrow> \<forall>g\<in>set G. 0 < f g \<Longrightarrow> 0 < sum_list (map f G)" for f :: "'g \<Rightarrow> nat"
  by (cases G) auto

lemma to_batch_ok:
  fixes G :: "('a::zero, 'v) graph list"
  assumes ne: "G \<noteq> []"
    and wf: "\<forall>g\<in>set G. well_formed g \<and> 0 < get_node_num g"
    and bn: "batchable node_features G"
    and be: "batchable edge_features G"
  shows "\<exists>b. to_batch setitem G = Inr b
     \<and> node_attributes b = concat (map node_attributes G)
     \<and> edge_attributes b = concat (map edge_attributes G)
     \<and> node_features b =
         batched_table (fold (\<lambda>g. collect_features (node_features g)) G []) res_init_node_features
     \<and> edge_features b =
         batched_table (fold (\<lambda>g. collect_features (edge_features g)) G []) res_init_edge_features
     \<and> edge_indices_src b = map fst (concat (rebased G 0))
     \<and> edge_indices_tgt b = map snd (concat (rebased G 0))
     \<and> device b = device (hd G)
     \<and> batch_size b = Some (length G)
     \<and> batch_num_nodes b = Some (map get_node_num G)
     \<and> batch_num_edges b = Some (map get_edge_num G)"
proof -
  let ?total = "sum_list (map get_node_num G)"
  let ?es = "concat (rebased G 0)"
  let ?cn = "fold (\<lambda>g. collect_features (node_features g)) G []"
  let ?ce = "fold (\<lambda>g. collect_features (edge_features g)) G []"
  let ?big1 = "(init_storage None :: ('a, 'v) graph)\<lparr>is_batch := True, device := device (hd G)\<rparr>"
  let ?big2 = "?big1\<lparr>node_attributes := replicate ?total res_init_node_attr\<rparr>"
  let ?big3 = "?big2\<lparr>node_features := batched_table ?cn res_init_node_features\<rparr>"
  let ?big4 = "?big3\<lparr>node_attributes := concat (map node_attributes G)\<rparr>"
  from wf have al: "\<forall>g\<in>set G. length (edge_indices_tgt g) = length (edge_indices_src g)"
    and dn: "\<forall>g\<in>set G. distinct (map fst (node_features g))"
    and de: "\<forall>g\<in>set G. distinct (map fst (edge_features g))"
    and an: "\<forall>g\<in>set G. aligned (node_features g) (get_node_num g)"
    and ae: "\<forall>g\<in>set G. aligned (edge_features g) (get_edge_num g)"
    and ea: "\<forall>g\<in>set G. get_edge_num g = length (edge_attributes g)"
    by (simp_all add: well_formed_def)
  have pos: "0 < ?total" using ne wf by (intro sum_pos) auto
  have s2: "add_nodes ?big1 (int ?total) = Done ?big2"
    using pos by (simp add: add_nodes_def init_storage_def)
  have s3: "set_batch_features (view_set_node_feature setitem) ?cn ?big2 = Inr ?big3"
  proof -
    have "\<forall>(k, v)\<in>set ?cn. \<forall>ts. those v = Some ts \<longrightarrow>
             (\<exists>t. torch_cat ts = Inr t \<and> shape0 t = get_node_num ?big2)"
    proof (intro ballI, clarify)
      fix k v ts
      assume "(k, v) \<in> set ?cn" "those v = Some ts"
      moreover have "distinct (map fst ?cn)" by (intro collect_all_distinct) simp
      ultimately have m: "map_of ?cn k = Some v" and th: "those v = Some ts" by simp_all
      from collected_entry [OF bn dn an m th] obtain tr where
        "torch_cat ts = Inr (Tensor tr (concat (map rows ts)))"
        "length (concat (map rows ts)) = ?total"
        by blast
      moreover have "get_node_num ?big2 = ?total" by (simp add: get_node_num_def)
      ultimately show "\<exists>t. torch_cat ts = Inr t \<and> shape0 t = get_node_num ?big2"
        by (simp add: shape0_def)
    qed
    from set_batch_features_ok [of get_node_num "view_set_node_feature setitem"
        "\<lambda>k t g. g\<lparr>node_features := AList.update k (Some t) (node_features g)\<rparr>", OF _ _ this]
    show ?thesis
      by (simp add: view_set_node_feature_def set_node_features_full get_node_num_def
          batched_fold_node init_storage_def)
  qed
  have s4: "copy_attributes node_attributes get_node_num (node_attributes ?big3) 0 G
      = Inr (concat (map node_attributes G))"
    by (subst copy_attributes_ok) (simp_all add: get_node_num_def)
  have s5: "stack_edge_indices G 0 ([], []) = Inr (map fst ?es, map snd ?es)"
    using stack_edge_indices_ok [OF al, of 0 "[]" "[]"] by simp
  have dist: "distinct ?es"
    using rebased_distinct [of G 0] wf by (simp add: well_formed_def)
  have "\<exists>m. snd (add_edges ?big4 (L (map fst ?es)) (L (map snd ?es))) =
     Done (?big4\<lparr> nids_eid_mapping := m,
             edge_indices_src := edge_indices_src ?big4 @ map fst ?es,
             edge_indices_tgt := edge_indices_tgt ?big4 @ map snd ?es,
             edge_attributes := edge_attributes ?big4 @
                replicate (length (map fst ?es)) res_init_edge_attributes,
             edge_features := pad_features (edge_features ?big4) (length (map fst ?es)) \<rparr>)"
    using dist by (intro add_edges_fresh) (simp_all add: zip_fst_snd init_storage_def)
  then obtain m where s6:
    "snd (add_edges ?big4 (L (map fst ?es)) (L (map snd ?es))) =
     Done (?big4\<lparr> nids_eid_mapping := m,
             edge_indices_src := map fst ?es,
             edge_indices_tgt := map snd ?es,
             edge_attributes := replicate (length ?es) res_init_edge_attributes,
             edge_features := res_init_edge_features \<rparr>)"
    by (auto simp: init_storage_def)
  let ?big5 = "?big4\<lparr> nids_eid_mapping := m,
             edge_indices_src := map fst ?es,
             edge_indices_tgt := map snd ?es,
             edge_attributes := replicate (length ?es) res_init_edge_attributes,
             edge_features := res_init_edge_features \<rparr>"
  let ?big6 = "?big5\<lparr>edge_features := batched_table ?ce res_init_edge_features\<rparr>"
  have les: "length ?es = sum_list (map get_edge_num G)"
    using map_length_rebased [OF al, of 0] by (simp add: length_concat)
  have s7: "set_batch_features (view_set_edge_feature setitem) ?ce ?big5 = Inr ?big6"
  proof -
    have "\<forall>(k, v)\<in>set ?ce. \<forall>ts. those v = Some ts \<longrightarrow>
             (\<exists>t. torch_cat ts = Inr t \<and> shape0 t = get_edge_num ?big5)"
    proof (intro ballI, clarify)
      fix k v ts
      assume "(k, v) \<in> set ?ce" "those v = Some ts"
      moreover have "distinct (map fst ?ce)" by (intro collect_all_distinct) simp
      ultimately have m: "map_of ?ce k = Some v" and th: "those v = Some ts" by simp_all
      from collected_entry [OF be de ae m th] obtain tr where
        "torch_cat ts = Inr (Tensor tr (concat (map rows ts)))"
        "length (concat (map rows ts)) = sum_list (map get_edge_num G)"
        by blast
      moreover have "get_edge_num ?big5 = sum_list (map get_edge_num G)"
        using les by (simp add: get_edge_num_def)
      ultimately show "\<exists>t. torch_cat ts = Inr t \<and> shape0 t = get_edge_num ?big5"
        by (simp add: shape0_def)
    qed
    from set_batch_features_ok [of get_edge_num "view_set_edge_feature setitem"
        "\<lambda>k t g. g\<lparr>edge_features := AList.update k (Some t) (edge_features g)\<rparr>", OF _ _ this]
    show ?thesis
      by (simp add: view_set_edge_feature_def set_edge_feature_full get_edge_num_def
          batched_fold_edge)
  qed
  have s8: "copy_attributes edge_attributes get_edge_num (edge_attributes ?big6) 0 G
      = Inr (concat (map edge_attributes G))"
    using ea by (subst copy_attributes_ok) (simp_all add: les)
  let ?b = "?big6\<lparr> edge_attributes := concat (map edge_attributes G),
                   batch_size := Some (length G),
                   batch := Some (concat (map (\<lambda>i. replicate (get_node_num (G ! i)) i)
                                            [0..<length G])),
                   batch_num_nodes := Some (map get_node_num G),
                   batch_num_edges := Some (map get_edge_num G) \<rparr>"
  have "to_batch setitem G = Inr ?b"
    using ne
    by (simp add: to_batch_def GraphData_init_def Let_def s2 [simplified] s3 [simplified]
        s4 [simplified] s5 s6 [simplified] s7 [simplified] s8 [simplified])
  then show ?thesis
    by (intro exI [of _ ?b]) (simp add: init_storage_def)
qed

lemma split_fold_node:
  "fold (\<lambda>(k, v) g. case v of
                      None \<Rightarrow> g
                    | Some t \<Rightarrow>
                        g\<lparr>node_features :=
                            AList.update k (Some (tensor_slice t (offset ns i) (offset ns i + ns ! i)))
                              (node_features g)\<rparr>) fs g
   = g\<lparr>node_features := split_table ns i fs (node_features g)\<rparr>"
  unfolding split_table_def
  by (induction fs arbitrary: g) (auto split: option.splits)

lemma split_fold_edge:
  "fold (\<lambda>(k, v) g. case v of
                      None \<Rightarrow> g
                    | Some t \<Rightarrow>
                        g\<lparr>edge_features :=
                            AList.update k (Some (tensor_slice t (offset ns i) (offset ns i + ns ! i)))
                              (edge_features g)\<rparr>) fs g
   = g\<lparr>edge_features := split_table ns i fs (edge_features g)\<rparr>"
  unfolding split_table_def
  by (induction fs arbitrary: g) (auto split: option.splits)

lemma split_table_map_of:
  "distinct (map fst fs) \<Longrightarrow>
   map_of (split_table ns i fs acc) k =
     (case map_of fs k of
        Some (Some t) \<Rightarrow> Some (Some (tensor_slice t (offset ns i) (offset ns i + ns ! i)))
      | _ \<Rightarrow> map_of acc k)"
  unfolding split_table_def
proof (induction fs arbitrary: acc)
  case Nil
  then show ?case by simp
next
  case (Cons kv fs)
  obtain k' v' where kv: "kv = (k', v')" by (cases kv)
  from Cons.prems kv have d: "distinct (map fst fs)" and n: "map_of fs k' = None"
    by (auto simp: map_of_eq_None_iff)
  show ?case
    using n by (simp add: kv Cons.IH [OF d] update_conv' split: option.splits)
qed

lemma batch_entry:
  assumes b: "batchable tab G"
    and d: "\<forall>g\<in>set G. distinct (map fst (tab g))"
    and al: "\<forall>g\<in>set G. aligned (tab g) (cnt g)"
    and init: "\<forall>k. map_of init k = None \<or> map_of init k = Some None"
    and m: "map_of (batched_table (fold (\<lambda>g. collect_features (tab g)) G []) init) k
              = Some (Some t)"
  shows "\<exists>tr. t = Tensor tr (concat (map (\<lambda>g. rows (tensor_at (tab g) k)) G))
       \<and> (\<forall>g\<in>set G. map_of (tab g) k = Some (Some (tensor_at (tab g) k))
                     \<and> trailing (tensor_at (tab g) k) = tr)
       \<and> shape0 t = sum_list (map cnt G)"
proof -
  let ?c = "fold (\<lambda>g. collect_features (tab g)) G []"
  have dc: "distinct (map fst ?c)" by (intro collect_all_distinct) simp
  from m init [rule_format, of k] obtain v ts where
    v: "map_of ?c k = Some v" and th: "those v = Some ts" and cat: "torch_cat ts = Inr t"
    by (auto simp: batched_table_map_of [OF dc] split: option.splits sum.splits)
  from collected_entry [OF b d al v th] cat obtain tr where
    "ts = map (\<lambda>g. tensor_at (tab g) k) G"
    "\<forall>g\<in>set G. map_of (tab g) k = Some (Some (tensor_at (tab g) k))"
    "\<forall>g\<in>set G. trailing (tensor_at (tab g) k) = tr"
    "t = Tensor tr (concat (map rows ts))"
    "length (concat (map rows ts)) = sum_list (map cnt G)"
    by auto
  then show ?thesis by (auto simp: shape0_def comp_def)
qed

lemma present_entry:
  assumes ne: "G \<noteq> []"
    and b: "batchable tab G"
    and d: "\<forall>g\<in>set G. distinct (map fst (tab g))"
    and al: "\<forall>g\<in>set G. aligned (tab g) (cnt g)"
    and p: "present_on_all tab G k"
  shows "\<exists>t. map_of (batched_table (fold (\<lambda>g. collect_features (tab g)) G []) init) k
              = Some (Some t)"
proof -
  let ?c = "fold (\<lambda>g. collect_features (tab g)) G []"
  have dc: "distinct (map fst ?c)" by (intro collect_all_distinct) simp
  from p have each: "\<forall>g\<in>set G. map_of (tab g) k = Some (Some (tensor_at (tab g) k))"
    by (auto simp: present_on_all_def list_all_iff is_new_feature_def tensor_at_def
        split: option.splits)
  then have col: "column tab G k = map (\<lambda>g. Some (tensor_at (tab g) k)) G"
    by (intro column_all) simp
  with ne d have v: "map_of ?c k = Some (map (\<lambda>g. Some (tensor_at (tab g) k)) G)"
    by (simp add: collect_all_map_of)
  have th: "those (map (\<lambda>g. Some (tensor_at (tab g) k)) G)
              = Some (map (\<lambda>g. tensor_at (tab g) k) G)"
    by (simp add: those_eq_Some comp_def)
  from collected_entry [OF b d al v th] obtain tr where
    "torch_cat (map (\<lambda>g. tensor_at (tab g) k) G)
       = Inr (Tensor tr (concat (map rows (map (\<lambda>g. tensor_at (tab g) k) G))))"
    by blast
  with v th show ?thesis
    by (simp add: batched_table_map_of [OF dc])
qed

lemma slice_recovers:
  assumes i: "i < length G"
    and sz: "\<forall>g\<in>set G. shape0 (f g) = cnt g"
    and tr: "\<forall>g\<in>set G. trailing (f g) = tr"
  shows "tensor_slice (Tensor tr (concat (map (\<lambda>g. rows (f g)) G)))
           (offset (map cnt G) i) (offset (map cnt G) i + map cnt G ! i) = f (G ! i)"
proof -
  let ?xss = "map (\<lambda>g. rows (f g)) G"
  have m: "map length ?xss = map cnt G"
    using sz by (simp add: shape0_def)
  have "take (length (?xss ! i)) (drop (offset (map length ?xss) i) (concat ?xss)) = ?xss ! i"
    using i by (intro concat_slice) simp
  moreover have "length (?xss ! i) = map cnt G ! i"
    using i sz by (simp add: shape0_def)
  ultimately have "take (map cnt G ! i) (drop (offset (map cnt G) i) (concat ?xss)) = rows (f (G ! i))"
    using i by (simp only: m) simp
  moreover have "trailing (f (G ! i)) = tr" using i tr by simp
  ultimately show ?thesis
    by (cases "f (G ! i)") (simp add: tensor_slice_def)
qed

lemma init_tables:
  "distinct (map fst (res_init_node_features :: 'a feature_table))"
  "distinct (map fst (res_init_edge_features :: 'a feature_table))"
  "\<forall>k. map_of (res_init_node_features :: 'a feature_table) k = None
       \<or> map_of (res_init_node_features :: 'a feature_table) k = Some None"
  "\<forall>k. map_of (res_init_edge_features :: 'a feature_table) k = None
       \<or> map_of (res_init_edge_features :: 'a feature_table) k = Some None"
  by (simp_all add: res_init_node_features_def res_init_edge_features_def)

subsection \<open>Unpacking a packed batch\<close>

text \<open>
  \<^verbatim>\<open>from_batch\<close> of the batch that \<^verbatim>\<open>to_batch\<close> built succeeds: each graph it returns is
  the child built from the metadata, with the slices of the feature tables and of the
  attribute records of the batch written into it.
\<close>

lemma from_batch_ok:
  fixes G :: "('a::zero, 'v) graph list"
  assumes ne: "G \<noteq> []"
    and wf: "\<forall>g\<in>set G. well_formed g \<and> 0 < get_node_num g"
    and bn: "batchable node_features G"
    and be: "batchable edge_features G"
    and tb: "to_batch setitem G = Inr b"
  shows "\<exists>new. length new = length G \<and> (\<forall>i<length G. child_of (new ! i) (G ! i))
     \<and> from_batch setitem b = Inr (map (\<lambda>i. (new ! i)\<lparr>
        node_features := split_table (map get_node_num G) i (node_features b) (node_features (new ! i)),
        edge_features := split_table (map get_edge_num G) i (edge_features b) (edge_features (new ! i)),
        node_attributes := take (map get_node_num G ! i)
                             (drop (offset (map get_node_num G) i) (node_attributes b)),
        edge_attributes := take (map get_edge_num G ! i)
                             (drop (offset (map get_edge_num G) i) (edge_attributes b))\<rparr>)
      [0..<length G])"
proof -
  let ?n = "length G"
  let ?nsN = "map get_node_num G"
  let ?nsE = "map get_edge_num G"
  let ?es = "concat (rebased G 0)"
  let ?cn = "fold (\<lambda>g. collect_features (node_features g)) G []"
  let ?ce = "fold (\<lambda>g. collect_features (edge_features g)) G []"
  from wf have dn: "\<forall>g\<in>set G. distinct (map fst (node_features g))"
    and de: "\<forall>g\<in>set G. distinct (map fst (edge_features g))"
    and an: "\<forall>g\<in>set G. aligned (node_features g) (get_node_num g)"
    and ae: "\<forall>g\<in>set G. aligned (edge_features g) (get_edge_num g)"
    and ea: "\<forall>g\<in>set G. length (edge_attributes g) = get_edge_num g"
    by (simp_all add: well_formed_def)
  from to_batch_ok [OF ne wf bn be, of setitem] tb have
    b_na: "node_attributes b = concat (map node_attributes G)"
    and b_ea: "edge_attributes b = concat (map edge_attributes G)"
    and b_nf: "node_features b = batched_table ?cn res_init_node_features"
    and b_ef: "edge_features b = batched_table ?ce res_init_edge_features"
    and b_src: "edge_indices_src b = map fst ?es"
    and b_tgt: "edge_indices_tgt b = map snd ?es"
    and b_bs: "batch_size b = Some ?n"
    and b_nn: "batch_num_nodes b = Some ?nsN"
    and b_ne: "batch_num_edges b = Some ?nsE"
    by auto
  have f1: "get_all_edges b = Inr ?es"
    by (simp add: get_all_edges_def b_src b_tgt zip_fst_snd)
  from construct_graphs_ok [OF wf b_nn b_ne, of 0 "[]"] obtain new st where
    f2: "construct_graphs b ?es [0..<?n] ([], 0, 0) = Inr st" and st: "fst st = new"
    and ln: "length new = ?n"
    and ch: "\<forall>i<?n. child_of (new ! i) (G ! i)"
    by auto
  have dbn: "distinct (map fst (node_features b))"
    unfolding b_nf by (intro batched_table_distinct init_tables)
  have dbe: "distinct (map fst (edge_features b))"
    unfolding b_ef by (intro batched_table_distinct init_tables)
  let ?putn = "\<lambda>k t (g :: ('a, 'v) graph).
                 g\<lparr>node_features := AList.update k (Some t) (node_features g)\<rparr>"
  let ?pute = "\<lambda>k t (g :: ('a, 'v) graph).
                 g\<lparr>edge_features := AList.update k (Some t) (edge_features g)\<rparr>"
  let ?ret1 = "map (\<lambda>i. (new ! i)\<lparr>node_features :=
                   split_table ?nsN i (node_features b) (node_features (new ! i))\<rparr>) [0..<?n]"
  let ?ret2 = "map (\<lambda>i. (?ret1 ! i)\<lparr>edge_features :=
                   split_table ?nsE i (edge_features b) (edge_features (?ret1 ! i))\<rparr>) [0..<?n]"
  let ?R = "map (\<lambda>i. (?ret2 ! i)\<lparr>
                 node_attributes := take (?nsN ! i) (drop (offset ?nsN i) (node_attributes b)),
                 edge_attributes := take (?nsE ! i) (drop (offset ?nsE i) (edge_attributes b))\<rparr>)
              [0..<?n]"
  have f3: "split_features (view_set_node_feature setitem) (Some ?nsN) ?n (node_features b) new
              = Inr ?ret1"
  proof -
    have szs: "\<forall>(k, v)\<in>set (node_features b). \<forall>t. v = Some t \<longrightarrow> sum_list ?nsN \<le> shape0 t"
    proof (intro ballI, clarify)
      fix k t assume "(k, Some t) \<in> set (node_features b)"
      with dbn have "map_of (node_features b) k = Some (Some t)" by simp
      from batch_entry [OF bn dn an init_tables(3) this [unfolded b_nf]]
      show "sum_list ?nsN \<le> shape0 t" by auto
    qed
    have cnts: "\<forall>i<length ?nsN. get_node_num (new ! i) = ?nsN ! i"
      using ch by (simp add: child_of_def get_node_num_def)
    from split_features_ok [of get_node_num "view_set_node_feature setitem" ?putn new ?nsN
        "node_features b", OF _ _ _ cnts szs] ln
    show ?thesis
      by (simp add: view_set_node_feature_def set_node_features_full get_node_num_def
          split_fold_node)
  qed
  have f4: "split_features (view_set_edge_feature setitem) (Some ?nsE) ?n (edge_features b) ?ret1
              = Inr ?ret2"
  proof -
    have szs: "\<forall>(k, v)\<in>set (edge_features b). \<forall>t. v = Some t \<longrightarrow> sum_list ?nsE \<le> shape0 t"
    proof (intro ballI, clarify)
      fix k t assume "(k, Some t) \<in> set (edge_features b)"
      with dbe have "map_of (edge_features b) k = Some (Some t)" by simp
      from batch_entry [OF be de ae init_tables(4) this [unfolded b_ef]]
      show "sum_list ?nsE \<le> shape0 t" by auto
    qed
    have cnts: "\<forall>i<length ?nsE. get_edge_num (?ret1 ! i) = ?nsE ! i"
      using ch by (simp add: child_of_def get_edge_num_def)
    from split_features_ok [of get_edge_num "view_set_edge_feature setitem" ?pute ?ret1 ?nsE
        "edge_features b", OF _ _ _ cnts szs]
    show ?thesis
      by (simp add: view_set_edge_feature_def set_edge_feature_full get_edge_num_def
          split_fold_edge)
  qed
  have f5: "split_attributes b [0..<?n] 0 0 ?ret2 = Inr ?R"
  proof -
    have sn: "sum_list ?nsN \<le> length (node_attributes b)"
      by (simp add: b_na length_concat comp_def get_node_num_def [abs_def])
    have m: "map (\<lambda>g. length (edge_attributes g)) G = map get_edge_num G"
      using ea by simp
    have "length (edge_attributes b) = sum_list (map (\<lambda>g. length (edge_attributes g)) G)"
      by (simp add: b_ea length_concat comp_def)
    then have se: "sum_list ?nsE \<le> length (edge_attributes b)"
      by (simp only: m)
    have lens: "\<forall>i<length ?nsN. 0 \<le> i \<longrightarrow> length (node_attributes (?ret2 ! i)) = ?nsN ! i
                            \<and> length (edge_attributes (?ret2 ! i)) = ?nsE ! i"
      using ch by (simp add: child_of_def)
    from split_attributes_ok [OF b_nn b_ne _ sn se _ lens]
    show ?thesis by simp
  qed
  have fb: "from_batch setitem b = Inr ?R"
    by (simp add: from_batch_def f1 b_bs f2 st b_nn b_ne f3 f4 f5)
  have "?R = map (\<lambda>i. (new ! i)\<lparr>
            node_features := split_table (map get_node_num G) i (node_features b) (node_features (new ! i)),
            edge_features := split_table (map get_edge_num G) i (edge_features b) (edge_features (new ! i)),
            node_attributes := take (map get_node_num G ! i)
                                 (drop (offset (map get_node_num G) i) (node_attributes b)),
            edge_attributes := take (map get_edge_num G ! i)
                                 (drop (offset (map get_edge_num G) i) (edge_attributes b))\<rparr>)
          [0..<length G]"
    by simp
  with fb ln ch show ?thesis by auto
qed

subsection \<open>The round trip\<close>

text \<open>
  C3, as amended. For every nonempty list of graphs in which every graph has at least one
  node and is well formed, and which is batchable for the node and for the edge features:
  \<^verbatim>\<open>to_batch\<close> succeeds, \<^verbatim>\<open>from_batch\<close> of the batch succeeds and returns as many graphs as
  there were, and the \<open>i\<close>-th of them has the node count, the ordered source and target
  lists, the node attribute records and the edge attribute records of the \<open>i\<close>-th graph, and
  for every node or edge feature that is present on all graphs, the array of the \<open>i\<close>-th
  graph.
\<close>

theorem pack_unpack_round_trip:
  fixes G :: "('a::zero, 'v) graph list"
  assumes ne: "G \<noteq> []"
    and wf0: "list_all well_formed G"
    and pos0: "list_all (\<lambda>g. 0 < get_node_num g) G"
    and bn: "batchable node_features G"
    and be: "batchable edge_features G"
  shows "\<exists>b R. to_batch setitem G = Inr b \<and> from_batch setitem b = Inr R \<and> length R = length G
     \<and> (\<forall>i<length G.
           get_node_num (R ! i) = get_node_num (G ! i)
         \<and> edge_indices_src (R ! i) = edge_indices_src (G ! i)
         \<and> edge_indices_tgt (R ! i) = edge_indices_tgt (G ! i)
         \<and> get_all_edges (R ! i) = get_all_edges (G ! i)
         \<and> node_attributes (R ! i) = node_attributes (G ! i)
         \<and> edge_attributes (R ! i) = edge_attributes (G ! i)
         \<and> (\<forall>k. present_on_all node_features G k \<longrightarrow>
                map_of (node_features (R ! i)) k = map_of (node_features (G ! i)) k)
         \<and> (\<forall>k. present_on_all edge_features G k \<longrightarrow>
                map_of (edge_features (R ! i)) k = map_of (edge_features (G ! i)) k))"
proof -
  let ?n = "length G"
  let ?nsN = "map get_node_num G"
  let ?nsE = "map get_edge_num G"
  let ?es = "concat (rebased G 0)"
  let ?cn = "fold (\<lambda>g. collect_features (node_features g)) G []"
  let ?ce = "fold (\<lambda>g. collect_features (edge_features g)) G []"
  from wf0 pos0 have wf: "\<forall>g\<in>set G. well_formed g \<and> 0 < get_node_num g"
    by (simp add: list_all_iff)
  then have dn: "\<forall>g\<in>set G. distinct (map fst (node_features g))"
    and de: "\<forall>g\<in>set G. distinct (map fst (edge_features g))"
    and an: "\<forall>g\<in>set G. aligned (node_features g) (get_node_num g)"
    and ae: "\<forall>g\<in>set G. aligned (edge_features g) (get_edge_num g)"
    and ea: "\<forall>g\<in>set G. length (edge_attributes g) = get_edge_num g"
    and al: "\<forall>g\<in>set G. length (edge_indices_tgt g) = length (edge_indices_src g)"
    by (simp_all add: well_formed_def)
  from to_batch_ok [OF ne wf bn be, of setitem] obtain b where
    tb: "to_batch setitem G = Inr b"
    and b_na: "node_attributes b = concat (map node_attributes G)"
    and b_ea: "edge_attributes b = concat (map edge_attributes G)"
    and b_nf: "node_features b = batched_table ?cn res_init_node_features"
    and b_ef: "edge_features b = batched_table ?ce res_init_edge_features"
    and b_src: "edge_indices_src b = map fst ?es"
    and b_tgt: "edge_indices_tgt b = map snd ?es"
    and b_bs: "batch_size b = Some ?n"
    and b_nn: "batch_num_nodes b = Some ?nsN"
    and b_ne: "batch_num_edges b = Some ?nsE"
    by blast
  from from_batch_ok [OF ne wf bn be tb] obtain new where
    ln: "length new = ?n"
    and ch: "\<forall>i<?n. child_of (new ! i) (G ! i)"
    and fb: "from_batch setitem b = Inr (map (\<lambda>i. (new ! i)\<lparr>
        node_features := split_table (map get_node_num G) i (node_features b) (node_features (new ! i)),
        edge_features := split_table (map get_edge_num G) i (edge_features b) (edge_features (new ! i)),
        node_attributes := take (map get_node_num G ! i)
                             (drop (offset (map get_node_num G) i) (node_attributes b)),
        edge_attributes := take (map get_edge_num G ! i)
                             (drop (offset (map get_edge_num G) i) (edge_attributes b))\<rparr>)
      [0..<length G])"
    by blast
  let ?R = "map (\<lambda>i. (new ! i)\<lparr>
        node_features := split_table ?nsN i (node_features b) (node_features (new ! i)),
        edge_features := split_table ?nsE i (edge_features b) (edge_features (new ! i)),
        node_attributes := take (?nsN ! i)
                             (drop (offset ?nsN i) (node_attributes b)),
        edge_attributes := take (?nsE ! i)
                             (drop (offset ?nsE i) (edge_attributes b))\<rparr>)
      [0..<?n]"
  have dbn: "distinct (map fst (node_features b))"
    unfolding b_nf by (intro batched_table_distinct init_tables)
  have dbe: "distinct (map fst (edge_features b))"
    unfolding b_ef by (intro batched_table_distinct init_tables)
  have props: "get_node_num (?R ! i) = get_node_num (G ! i)
         \<and> edge_indices_src (?R ! i) = edge_indices_src (G ! i)
         \<and> edge_indices_tgt (?R ! i) = edge_indices_tgt (G ! i)
         \<and> get_all_edges (?R ! i) = get_all_edges (G ! i)
         \<and> node_attributes (?R ! i) = node_attributes (G ! i)
         \<and> edge_attributes (?R ! i) = edge_attributes (G ! i)
         \<and> (\<forall>k. present_on_all node_features G k \<longrightarrow>
                map_of (node_features (?R ! i)) k = map_of (node_features (G ! i)) k)
         \<and> (\<forall>k. present_on_all edge_features G k \<longrightarrow>
                map_of (edge_features (?R ! i)) k = map_of (edge_features (G ! i)) k)"
    if i: "i < ?n" for i
  proof -
    from i ch have c: "child_of (new ! i) (G ! i)" by simp
    have gi: "G ! i \<in> set G" using i by simp
    have hN: "map length (map node_attributes G) = ?nsN"
      by (simp add: get_node_num_def [abs_def] comp_def)
    have hE: "map length (map edge_attributes G) = ?nsE"
      using ea by simp
    have ri: "?R ! i = (new ! i)\<lparr>
        node_features := split_table ?nsN i (node_features b) (node_features (new ! i)),
        edge_features := split_table ?nsE i (edge_features b) (edge_features (new ! i)),
        node_attributes := take (?nsN ! i) (drop (offset ?nsN i) (node_attributes b)),
        edge_attributes := take (?nsE ! i) (drop (offset ?nsE i) (edge_attributes b))\<rparr>"
      using i by simp
    have na: "node_attributes (?R ! i) = node_attributes (G ! i)"
    proof -
      have "take (length (map node_attributes G ! i))
              (drop (offset (map length (map node_attributes G)) i)
                 (concat (map node_attributes G))) = map node_attributes G ! i"
        using i by (intro concat_slice) simp
      then show ?thesis
        unfolding hN ri using i by (simp add: b_na get_node_num_def)
    qed
    have eat: "edge_attributes (?R ! i) = edge_attributes (G ! i)"
    proof -
      have "take (length (map edge_attributes G ! i))
              (drop (offset (map length (map edge_attributes G)) i)
                 (concat (map edge_attributes G))) = map edge_attributes G ! i"
        using i by (intro concat_slice) simp
      then show ?thesis
        unfolding hE ri using i ea gi by (simp add: b_ea)
    qed
    have src: "edge_indices_src (?R ! i) = edge_indices_src (G ! i)"
      and tgt: "edge_indices_tgt (?R ! i) = edge_indices_tgt (G ! i)"
      unfolding ri using c by (simp_all add: child_of_def)
    have nf: "map_of (node_features (?R ! i)) k = map_of (node_features (G ! i)) k"
      if p: "present_on_all node_features G k" for k
    proof -
      from present_entry [OF ne bn dn an p, of res_init_node_features] obtain t where
        t: "map_of (node_features b) k = Some (Some t)"
        by (auto simp: b_nf)
      from batch_entry [OF bn dn an init_tables(3) t [unfolded b_nf]] obtain tr where
        tt: "t = Tensor tr (concat (map (\<lambda>g. rows (tensor_at (node_features g) k)) G))"
        and each: "\<forall>g\<in>set G. map_of (node_features g) k
                      = Some (Some (tensor_at (node_features g) k))
                     \<and> trailing (tensor_at (node_features g) k) = tr"
        by blast
      have sz: "\<forall>g\<in>set G. shape0 (tensor_at (node_features g) k) = get_node_num g"
        using each an by (auto dest: aligned_D)
      have "tensor_slice t (offset ?nsN i) (offset ?nsN i + ?nsN ! i)
              = tensor_at (node_features (G ! i)) k"
        unfolding tt using each by (intro slice_recovers [OF i sz]) simp
      then show ?thesis
        unfolding ri using each gi by (simp add: split_table_map_of [OF dbn] t)
    qed
    have ef: "map_of (edge_features (?R ! i)) k = map_of (edge_features (G ! i)) k"
      if p: "present_on_all edge_features G k" for k
    proof -
      from present_entry [OF ne be de ae p, of res_init_edge_features] obtain t where
        t: "map_of (edge_features b) k = Some (Some t)"
        by (auto simp: b_ef)
      from batch_entry [OF be de ae init_tables(4) t [unfolded b_ef]] obtain tr where
        tt: "t = Tensor tr (concat (map (\<lambda>g. rows (tensor_at (edge_features g) k)) G))"
        and each: "\<forall>g\<in>set G. map_of (edge_features g) k
                      = Some (Some (tensor_at (edge_features g) k))
                     \<and> trailing (tensor_at (edge_features g) k) = tr"
        by blast
      have sz: "\<forall>g\<in>set G. shape0 (tensor_at (edge_features g) k) = get_edge_num g"
        using each ae by (auto dest: aligned_D)
      have "tensor_slice t (offset ?nsE i) (offset ?nsE i + ?nsE ! i)
              = tensor_at (edge_features (G ! i)) k"
        unfolding tt using each by (intro slice_recovers [OF i sz]) simp
      then show ?thesis
        unfolding ri using each gi by (simp add: split_table_map_of [OF dbe] t)
    qed
    have "get_node_num (?R ! i) = get_node_num (G ! i)"
      using na by (simp only: get_node_num_def)
    moreover have "get_all_edges (?R ! i) = get_all_edges (G ! i)"
      using src tgt by (simp only: get_all_edges_def)
    ultimately show ?thesis
      using na eat src tgt nf ef by blast
  qed
  have lr: "length ?R = length G" by simp
  have every: "\<forall>i<length G.
           get_node_num (?R ! i) = get_node_num (G ! i)
         \<and> edge_indices_src (?R ! i) = edge_indices_src (G ! i)
         \<and> edge_indices_tgt (?R ! i) = edge_indices_tgt (G ! i)
         \<and> get_all_edges (?R ! i) = get_all_edges (G ! i)
         \<and> node_attributes (?R ! i) = node_attributes (G ! i)
         \<and> edge_attributes (?R ! i) = edge_attributes (G ! i)
         \<and> (\<forall>k. present_on_all node_features G k \<longrightarrow>
                map_of (node_features (?R ! i)) k = map_of (node_features (G ! i)) k)
         \<and> (\<forall>k. present_on_all edge_features G k \<longrightarrow>
                map_of (edge_features (?R ! i)) k = map_of (edge_features (G ! i)) k)"
    using props by blast
  show ?thesis
    by (rule exI [of _ b], rule exI [of _ ?R], intro conjI) (rule tb fb lr every)+
qed

text \<open>
  The claim as stated fails: the list that holds one graph without nodes is nonempty, and
  \<^verbatim>\<open>to_batch\<close> raises on it (the assertion of \<^verbatim>\<open>add_nodes\<close>, line 121).
\<close>

theorem empty_graph_counterexample:
  "to_batch exact_setitem [init_storage None :: (int, int) graph] = Inl AssertionError"
  by (simp add: batch_eval graph_eval)

theorem pack_unpack_round_trip_witness:
  "[two_edges, loop_node] \<noteq> []
   \<and> list_all well_formed [two_edges, loop_node]
   \<and> list_all (\<lambda>g. 0 < get_node_num g) [two_edges, loop_node]
   \<and> batchable node_features [two_edges, loop_node]
   \<and> batchable edge_features [two_edges, loop_node]
   \<and> (\<exists>b. to_batch exact_setitem [two_edges, loop_node] = Inr b
          \<and> edge_indices_src b = [0, 1, 2] \<and> edge_indices_tgt b = [1, 0, 2]
          \<and> map_of (node_features b) ''node_feat'' = Some (Some (Tensor [1] [[1], [2], [3]]))
          \<and> from_batch exact_setitem b = Inr [two_edges, loop_node])"
proof -
  have h1: "[two_edges, loop_node] \<noteq> []" by simp
  have h2: "list_all well_formed [two_edges, loop_node]"
    by (simp add: sample_eval graph_eval one_node_def shape0_def)
  have h3: "list_all (\<lambda>g. 0 < get_node_num g) [two_edges, loop_node]"
    by (simp add: sample_eval graph_eval one_node_def)
  have h4: "batchable node_features [two_edges, loop_node]"
    by (simp add: sample_eval graph_eval one_node_def)
  have h5: "batchable edge_features [two_edges, loop_node]"
    by (simp add: sample_eval graph_eval one_node_def)
  have ev: "\<exists>b. to_batch exact_setitem [two_edges, loop_node] = Inr b
          \<and> edge_indices_src b = [0, 1, 2] \<and> edge_indices_tgt b = [1, 0, 2]
          \<and> map_of (node_features b) ''node_feat'' = Some (Some (Tensor [1] [[1], [2], [3]]))
          \<and> from_batch exact_setitem b = Inr [two_edges, loop_node]"
    by (simp add: batch_eval graph_eval sample_eval upt_rec numeral_2_eq_2 numeral_3_eq_3)
  from pack_unpack_round_trip [OF h1 h2 h3 h4 h5, of exact_setitem] h1 h2 h3 h4 h5 ev
  show ?thesis by blast
qed

subsection \<open>from_batch and the batch metadata\<close>

lemma construct_graphs_length:
  "construct_graphs b es is st = Inr st' \<Longrightarrow> length (fst st') = length (fst st) + length is"
proof (induction "is" arbitrary: st)
  case Nil
  then show ?case by simp
next
  case (Cons i "is")
  obtain ret cn ce where st: "st = (ret, cn, ce)" by (cases st)
  from Cons.prems st obtain g n m where
    "construct_graphs b es is (ret @ [g], cn + n, ce + m) = Inr st'"
    by (auto simp: Let_def split: sum.splits)
  from Cons.IH [OF this] st show ?case by simp
qed

lemma split_feature_length:
  "split_feature assign nums k v is cum ret = Inr ret' \<Longrightarrow> length ret' = length ret"
proof (induction "is" arbitrary: cum ret)
  case Nil
  then show ?case by simp
next
  case (Cons i "is")
  from Cons.prems obtain n g' where
    "split_feature assign nums k v is (cum + n) (ret[i := g']) = Inr ret'"
    by (auto split: sum.splits if_splits)
  from Cons.IH [OF this] show ?case by simp
qed

lemma split_features_length:
  "split_features assign nums bs fs ret = Inr ret' \<Longrightarrow> length ret' = length ret"
proof (induction fs arbitrary: ret)
  case Nil
  then show ?case by simp
next
  case (Cons kv fs)
  obtain k v where kv: "kv = (k, v)" by (cases kv)
  show ?case
  proof (cases v)
    case None
    with Cons kv show ?thesis by simp
  next
    case (Some t)
    with Cons.prems kv obtain ret1 where
      a: "split_feature assign nums k t [0..<bs] 0 ret = Inr ret1"
      and b: "split_features assign nums bs fs ret1 = Inr ret'"
      by (auto split: sum.splits)
    from Cons.IH [OF b] split_feature_length [OF a] show ?thesis by simp
  qed
qed

lemma split_attributes_length:
  "split_attributes b cnts cn ce ret = Inr ret' \<Longrightarrow> length ret' = length ret"
proof (induction cnts arbitrary: cn ce ret)
  case Nil
  then show ?case by simp
next
  case (Cons c cnts)
  from Cons.prems obtain cn' ce' ret1 where
    "split_attributes b cnts cn' ce' ret1 = Inr ret'" "length ret1 = length ret"
    by (auto split: sum.splits if_splits)
  with Cons.IH show ?case by metis
qed

lemma construct_graphs_zero_fails:
  "i \<in> set is \<Longrightarrow> subscript (batch_num_nodes b) i = Inr 0 \<Longrightarrow>
   \<exists>e. construct_graphs b es is st = Inl e"
proof (induction "is" arbitrary: st)
  case Nil
  then show ?case by simp
next
  case (Cons j "is")
  obtain ret cn ce where st: "st = (ret, cn, ce)" by (cases st)
  show ?case
  proof (cases "j = i")
    case True
    with Cons.prems st show ?thesis
      by (simp add: GraphData_init_def add_nodes_def)
  next
    case False
    with Cons.prems have "i \<in> set is" by simp
    from Cons.IH [OF this Cons.prems(2)] st show ?thesis
      by (auto simp: Let_def split: sum.splits)
  qed
qed

text \<open>
  Without a batch size \<^verbatim>\<open>from_batch\<close> raises the TypeError of \<^verbatim>\<open>range(None)\<close> (an
  IndexError comes first when the target list is shorter than the source list). With the
  batch size \<open>n\<close> it returns \<open>n\<close> graphs whenever it returns; it returns on the batch that
  \<^verbatim>\<open>to_batch\<close> built from well formed, batchable graphs with at least one node each, and it
  raises when one of the first \<open>n\<close> node counts is 0.
\<close>

lemma from_batch_without_metadata:
  "batch_size b = None \<Longrightarrow>
   from_batch setitem b =
     Inl (if length (edge_indices_tgt b) < length (edge_indices_src b) then IndexError
          else TypeError)"
  by (simp add: from_batch_def get_all_edges_def)

lemma from_batch_length:
  assumes "batch_size b = Some n" and "from_batch setitem b = Inr R"
  shows "length R = n"
proof -
  from assms obtain es st ret1 ret2 where
    c: "construct_graphs b es [0..<n] ([], 0, 0) = Inr st"
    and f1: "split_features (view_set_node_feature setitem) (batch_num_nodes b) n
               (node_features b) (fst st) = Inr ret1"
    and f2: "split_features (view_set_edge_feature setitem) (batch_num_edges b) n
               (edge_features b) ret1 = Inr ret2"
    and f3: "split_attributes b [0..<n] 0 0 ret2 = Inr R"
    by (auto simp: from_batch_def split: sum.splits)
  from construct_graphs_length [OF c] split_features_length [OF f1] split_features_length [OF f2]
    split_attributes_length [OF f3]
  show ?thesis by simp
qed

lemma from_batch_of_packed:
  fixes G :: "('a::zero, 'v) graph list"
  assumes ne: "G \<noteq> []"
    and wf: "\<forall>g\<in>set G. well_formed g \<and> 0 < get_node_num g"
    and bn: "batchable node_features G"
    and be: "batchable edge_features G"
    and tb: "to_batch setitem G = Inr b"
  shows "batch_size b = Some (length G)
       \<and> (\<exists>R. from_batch setitem b = Inr R \<and> length R = length G)"
proof -
  from to_batch_ok [OF ne wf bn be, of setitem] tb
  have bs: "batch_size b = Some (length G)" by auto
  from from_batch_ok [OF ne wf bn be tb] obtain R where "from_batch setitem b = Inr R"
    by blast
  with bs from_batch_length [OF bs this] show ?thesis by simp
qed

lemma from_batch_zero_count:
  assumes "batch_size b = Some n" and "i < n" and "subscript (batch_num_nodes b) i = Inr 0"
  shows "\<exists>e. from_batch setitem b = Inl e"
proof -
  from assms have "i \<in> set [0..<n]" by simp
  from construct_graphs_zero_fails [OF this assms(3)]
  obtain e where
    "construct_graphs b (zip (edge_indices_src b) (edge_indices_tgt b)) [0..<n] ([], 0, 0) = Inl e"
    by blast
  with assms show ?thesis
    by (simp add: from_batch_def get_all_edges_def)
qed

lemma from_batch_samples:
  "to_batch exact_setitem [one_node, one_node] = Inr twin_batch"
  "from_batch exact_setitem twin_batch = Inr [one_node, one_node]"
  "to_batch exact_setitem [one_node, init_storage None] = Inr lopsided_batch"
  "from_batch exact_setitem lopsided_batch = Inl AssertionError"
  by (simp_all add: batch_eval graph_eval twin_batch_def lopsided_batch_def upt_rec numeral_2_eq_2)

text \<open>
  C9 (\<^verbatim>\<open>from_batch\<close> of a graph without batch metadata fails with a precondition error).
  \<^verbatim>\<open>from_batch\<close> has no test of the metadata: on \<open>two_nodes\<close>, which is not a batch, it
  reaches \<^verbatim>\<open>range(None)\<close> and raises a TypeError. The batch methods of the class test
  \<^verbatim>\<open>_is_batch\<close> first and raise an exception of their own (lines 650, 697, 715 and 727).
\<close>

theorem from_batch_lacks_metadata_check:
  "add_nodes (init_storage None) 2 = Done two_nodes
   \<and> is_batch two_nodes = False \<and> batch_size two_nodes = None
   \<and> batch_num_nodes two_nodes = None \<and> batch_num_edges two_nodes = None
   \<and> from_batch exact_setitem two_nodes = Inl TypeError"
  by (simp add: from_batch_def get_all_edges_def two_nodes_def init_storage_def add_nodes_def
      pad_features_def res_init_node_features_def numeral_2_eq_2)

end
